theory Spec2Isabelle
  imports Main "HOL-Library.Word"
begin

unbundle bit_operations_syntax

section \<open>Data model (chip8/cpu.go)\<close>

type_synonym byte = "8 word"
type_synonym uint16 = "16 word"
type_synonym uint32 = "32 word"

definition RegisterCount :: nat where "RegisterCount = 16"
definition KeyCount :: nat where "KeyCount = 16"
definition MemorySize :: nat where "MemorySize = 4096"
definition StackSize :: nat where "StackSize = 16"
definition FontStartAddress :: uint16 where "FontStartAddress = 0x50"
definition LastAddress :: uint16 where "LastAddress = 0xFFE"
definition ProgramStartAddress :: uint16 where "ProgramStartAddress = 0x200"
definition CarryFlag :: nat where "CarryFlag = 0xF"

text \<open>Durations are nanoseconds, as Go's \<^verbatim>\<open>time.Duration\<close>; \<^verbatim>\<open>time.Second / 60\<close>
  is an integer division.\<close>

definition TimerRate :: int where "TimerRate = 1000000000 div 60"
definition ClockRate :: int where "ClockRate = 1000000000 div 700"

definition Width :: nat where "Width = 64"
definition Height :: nat where "Height = 32"
definition Area :: nat where "Area = Width * Height"

text \<open>The side-effect flags \<^verbatim>\<open>1 << iota\<close>.\<close>

definition Delay :: byte where "Delay = 1"
definition Sound :: byte where "Sound = 2"
definition Redraw :: byte where "Redraw = 4"

text \<open>Every \<^verbatim>\<open>panic\<close> of the source, and the two run-time panics of Go that the handlers
  can raise (an array index out of range, an integer division by zero), is a value. The
  last one is the panic "return from empty stack" of the opcode object
  \<^verbatim>\<open>SubroutineReturn\<close>.\<close>

datatype error =
    StackOverflow
  | StackUnderflow
  | UnknownOpcode
  | ProgramRunaway
  | InsufficientMemory
  | IndexOutOfRange
  | DivideByZero
  | ReturnFromEmptyStack

text \<open>The struct \<^verbatim>\<open>Processor\<close>. A fixed-size array \<^verbatim>\<open>[N]T\<close> is a function from the index;
  only the cells below \<open>N\<close> exist, and every access checks the index as Go does. The field
  \<^verbatim>\<open>i\<close> is named \<open>i_reg\<close>. \<^verbatim>\<open>lastTimerUpdate\<close> is an instant in nanoseconds.\<close>

record Processor =
  memory :: "nat \<Rightarrow> byte"
  v :: "nat \<Rightarrow> byte"
  keyState :: "nat \<Rightarrow> bool"
  display :: "nat \<Rightarrow> byte"
  stack :: "nat \<Rightarrow> uint16"
  sp :: byte
  pc :: uint16
  i_reg :: uint16
  delay :: byte
  sound :: byte
  lastTimerUpdate :: int

section \<open>Instruction handlers\<close>

text \<open>The handlers receive register indices as \<^verbatim>\<open>uint16\<close>; \<^verbatim>\<open>cpu.v[x]\<close> panics for an
  index of 16 or more.\<close>

definition reg_ok :: "uint16 \<Rightarrow> bool" where
  "reg_ok x \<longleftrightarrow> unat x < RegisterCount"

definition set_reg :: "nat \<Rightarrow> byte \<Rightarrow> Processor \<Rightarrow> Processor" where
  "set_reg k b s = s\<lparr>v := (v s)(k := b)\<rparr>"

definition clearScreen :: "byte \<Rightarrow> Processor \<Rightarrow> Processor \<times> byte" where
  "clearScreen info s = (s\<lparr>display := (\<lambda>k. if k < Area then 0 else display s k)\<rparr>, info OR Redraw)"

definition callSubroutine :: "uint16 \<Rightarrow> Processor \<Rightarrow> error + Processor" where
  "callSubroutine nnn s =
     (if unat (sp s) \<ge> StackSize then Inl StackOverflow
      else Inr (s\<lparr>stack := (stack s)(unat (sp s) := pc s), sp := sp s + 1, pc := nnn\<rparr>))"

definition returnFromSubroutine :: "Processor \<Rightarrow> error + Processor" where
  "returnFromSubroutine s =
     (if sp s = 0 then Inl StackUnderflow
      else if unat (sp s - 1) \<ge> StackSize then Inl IndexOutOfRange
      else Inr (s\<lparr>sp := sp s - 1, pc := stack s (unat (sp s - 1))\<rparr>))"

definition jumpToLocation :: "uint16 \<Rightarrow> Processor \<Rightarrow> Processor" where
  "jumpToLocation nnn s = s\<lparr>pc := nnn\<rparr>"

definition jumpWithOffset :: "uint16 \<Rightarrow> Processor \<Rightarrow> Processor" where
  "jumpWithOffset nnn s = s\<lparr>pc := nnn + ucast (v s 0)\<rparr>"

definition stepIfXEqualsNN :: "uint16 \<Rightarrow> uint16 \<Rightarrow> Processor \<Rightarrow> error + Processor" where
  "stepIfXEqualsNN x nn s =
     (if \<not> reg_ok x then Inl IndexOutOfRange
      else Inr (if v s (unat x) = ucast nn then s\<lparr>pc := pc s + 2\<rparr> else s))"

definition stepIfXNotEqualsNN :: "uint16 \<Rightarrow> uint16 \<Rightarrow> Processor \<Rightarrow> error + Processor" where
  "stepIfXNotEqualsNN x nn s =
     (if \<not> reg_ok x then Inl IndexOutOfRange
      else Inr (if v s (unat x) \<noteq> ucast nn then s\<lparr>pc := pc s + 2\<rparr> else s))"

definition stepIfXEqualsY :: "uint16 \<Rightarrow> uint16 \<Rightarrow> Processor \<Rightarrow> error + Processor" where
  "stepIfXEqualsY x y s =
     (if \<not> (reg_ok x \<and> reg_ok y) then Inl IndexOutOfRange
      else Inr (if v s (unat x) = v s (unat y) then s\<lparr>pc := pc s + 2\<rparr> else s))"

definition stepIfXNotEqualsY :: "uint16 \<Rightarrow> uint16 \<Rightarrow> Processor \<Rightarrow> error + Processor" where
  "stepIfXNotEqualsY x y s =
     (if \<not> (reg_ok x \<and> reg_ok y) then Inl IndexOutOfRange
      else Inr (if v s (unat x) \<noteq> v s (unat y) then s\<lparr>pc := pc s + 2\<rparr> else s))"

definition setXToNN :: "uint16 \<Rightarrow> uint16 \<Rightarrow> Processor \<Rightarrow> error + Processor" where
  "setXToNN x nn s =
     (if \<not> reg_ok x then Inl IndexOutOfRange else Inr (set_reg (unat x) (ucast nn) s))"

definition addNNToX :: "uint16 \<Rightarrow> uint16 \<Rightarrow> Processor \<Rightarrow> error + Processor" where
  "addNNToX x nn s =
     (if \<not> reg_ok x then Inl IndexOutOfRange
      else Inr (set_reg (unat x) (v s (unat x) + ucast nn) s))"

definition setXToY :: "uint16 \<Rightarrow> uint16 \<Rightarrow> Processor \<Rightarrow> error + Processor" where
  "setXToY x y s =
     (if \<not> (reg_ok x \<and> reg_ok y) then Inl IndexOutOfRange
      else Inr (set_reg (unat x) (v s (unat y)) s))"

text \<open>The logical operations write the flag register first and read both operands after
  that write.\<close>

definition orXY :: "uint16 \<Rightarrow> uint16 \<Rightarrow> Processor \<Rightarrow> error + Processor" where
  "orXY x y s =
     (if \<not> (reg_ok x \<and> reg_ok y) then Inl IndexOutOfRange
      else let s1 = set_reg CarryFlag 0 s
           in Inr (set_reg (unat x) (v s1 (unat x) OR v s1 (unat y)) s1))"

definition andXY :: "uint16 \<Rightarrow> uint16 \<Rightarrow> Processor \<Rightarrow> error + Processor" where
  "andXY x y s =
     (if \<not> (reg_ok x \<and> reg_ok y) then Inl IndexOutOfRange
      else let s1 = set_reg CarryFlag 0 s
           in Inr (set_reg (unat x) (v s1 (unat x) AND v s1 (unat y)) s1))"

definition xorXY :: "uint16 \<Rightarrow> uint16 \<Rightarrow> Processor \<Rightarrow> error + Processor" where
  "xorXY x y s =
     (if \<not> (reg_ok x \<and> reg_ok y) then Inl IndexOutOfRange
      else let s1 = set_reg CarryFlag 0 s
           in Inr (set_reg (unat x) (v s1 (unat x) XOR v s1 (unat y)) s1))"

text \<open>\<^verbatim>\<open>addXY\<close> forms the 16-bit sum before it touches the flag register.\<close>

definition addXY :: "uint16 \<Rightarrow> uint16 \<Rightarrow> Processor \<Rightarrow> error + Processor" where
  "addXY x y s =
     (if \<not> (reg_ok x \<and> reg_ok y) then Inl IndexOutOfRange
      else let sum = (ucast (v s (unat x)) :: uint16) + ucast (v s (unat y));
               s1 = set_reg CarryFlag 0 s;
               s2 = (if sum > 255 then set_reg CarryFlag 1 s1 else s1)
           in Inr (set_reg (unat x) (ucast (sum AND 0xFF)) s2))"

text \<open>The subtractions compare and subtract the registers as they are after the flag
  register has been set to 0, and then to 1.\<close>

definition subtractYFromX :: "uint16 \<Rightarrow> uint16 \<Rightarrow> Processor \<Rightarrow> error + Processor" where
  "subtractYFromX x y s =
     (if \<not> (reg_ok x \<and> reg_ok y) then Inl IndexOutOfRange
      else let s1 = set_reg CarryFlag 0 s;
               s2 = (if v s1 (unat x) \<ge> v s1 (unat y) then set_reg CarryFlag 1 s1 else s1)
           in Inr (set_reg (unat x) (v s2 (unat x) - v s2 (unat y)) s2))"

definition subtractXFromY :: "uint16 \<Rightarrow> uint16 \<Rightarrow> Processor \<Rightarrow> error + Processor" where
  "subtractXFromY x y s =
     (if \<not> (reg_ok x \<and> reg_ok y) then Inl IndexOutOfRange
      else let s1 = set_reg CarryFlag 0 s;
               s2 = (if v s1 (unat y) \<ge> v s1 (unat x) then set_reg CarryFlag 1 s1 else s1)
           in Inr (set_reg (unat x) (v s2 (unat y) - v s2 (unat x)) s2))"

definition shiftRightX :: "uint16 \<Rightarrow> Processor \<Rightarrow> error + Processor" where
  "shiftRightX x s =
     (if \<not> reg_ok x then Inl IndexOutOfRange
      else let s1 = set_reg CarryFlag (v s (unat x) AND 0x1) s
           in Inr (set_reg (unat x) (drop_bit 1 (v s1 (unat x))) s1))"

definition shiftLeftX :: "uint16 \<Rightarrow> Processor \<Rightarrow> error + Processor" where
  "shiftLeftX x s =
     (if \<not> reg_ok x then Inl IndexOutOfRange
      else let s1 = set_reg CarryFlag (drop_bit 7 (v s (unat x) AND 0x80)) s
           in Inr (set_reg (unat x) (push_bit 1 (v s1 (unat x))) s1))"

definition setIToNNN :: "uint16 \<Rightarrow> Processor \<Rightarrow> Processor" where
  "setIToNNN nnn s = s\<lparr>i_reg := nnn\<rparr>"

text \<open>The byte drawn by \<^verbatim>\<open>rand.Uint32N(256)\<close> is an input of the model.\<close>

definition setXToRandom :: "byte \<Rightarrow> uint16 \<Rightarrow> uint16 \<Rightarrow> Processor \<Rightarrow> error + Processor" where
  "setXToRandom randomByte x nn s =
     (if \<not> reg_ok x then Inl IndexOutOfRange
      else Inr (set_reg (unat x) (randomByte AND ucast nn) s))"


text \<open>Modelled from the spec: the blit routine \<^verbatim>\<open>DrawSprite\<close> that \<^verbatim>\<open>drawSprite\<close> calls is not
  among the source files. The sprite origin wraps modulo the 64 by 32 framebuffer; each of
  the \<open>n\<close> sprite rows is read from memory starting at the index register (a row whose
  address lies past the top of memory is not read) and XORed onto the framebuffer, leftmost
  pixel in the most significant bit; a pixel that would fall outside the grid is not drawn;
  register 0xF becomes 1 if a pixel goes from set to unset, and 0 otherwise.\<close>

definition sprite_cells :: "byte \<Rightarrow> byte \<Rightarrow> byte \<Rightarrow> Processor \<Rightarrow> nat list" where
  "sprite_cells vx vy n s =
     (let startX = unat vx mod Width; startY = unat vy mod Height
      in concat (map (\<lambda>r. map (\<lambda>c. (startY + r) * Width + (startX + c))
                (filter (\<lambda>c. unat (i_reg s) + r < MemorySize \<and> startY + r < Height \<and>
                             startX + c < Width \<and> bit (memory s (unat (i_reg s) + r)) (7 - c))
                   [0..<8]))
           [0..<unat n]))"

definition sprite_collision :: "byte \<Rightarrow> byte \<Rightarrow> byte \<Rightarrow> Processor \<Rightarrow> bool" where
  "sprite_collision vx vy n s = list_ex (\<lambda>k. display s k \<noteq> 0) (sprite_cells vx vy n s)"

definition DrawSprite :: "byte \<Rightarrow> byte \<Rightarrow> byte \<Rightarrow> Processor \<Rightarrow> Processor" where
  "DrawSprite vx vy n s =
     (let cells = sprite_cells vx vy n s
      in s\<lparr>display := (\<lambda>k. if k \<in> set cells then display s k XOR 1 else display s k),
           v := (v s)(CarryFlag := (if sprite_collision vx vy n s then 1 else 0))\<rparr>)"

definition drawSprite ::
  "uint16 \<Rightarrow> uint16 \<Rightarrow> uint16 \<Rightarrow> byte \<Rightarrow> Processor \<Rightarrow> error + Processor \<times> byte" where
  "drawSprite x y n info s =
     (if \<not> (reg_ok x \<and> reg_ok y) then Inl IndexOutOfRange
      else Inr (DrawSprite (v s (unat x)) (v s (unat y)) (ucast n) s, info OR Redraw))"

definition stepIfKeyDown :: "uint16 \<Rightarrow> Processor \<Rightarrow> error + Processor" where
  "stepIfKeyDown x s =
     (if \<not> reg_ok x then Inl IndexOutOfRange
      else let key = v s (unat x) AND 0x0F
           in Inr (if keyState s (unat key) then s\<lparr>pc := pc s + 2\<rparr> else s))"

definition stepIfKeyUp :: "uint16 \<Rightarrow> Processor \<Rightarrow> error + Processor" where
  "stepIfKeyUp x s =
     (if \<not> reg_ok x then Inl IndexOutOfRange
      else let key = v s (unat x) AND 0x0F
           in Inr (if \<not> keyState s (unat key) then s\<lparr>pc := pc s + 2\<rparr> else s))"

definition setXToDelay :: "uint16 \<Rightarrow> Processor \<Rightarrow> error + Processor" where
  "setXToDelay x s =
     (if \<not> reg_ok x then Inl IndexOutOfRange else Inr (set_reg (unat x) (delay s) s))"

text \<open>The scan of \<^verbatim>\<open>pauseUntilKeyPressed\<close> stops at the first pressed key, in ascending
  order of the index.\<close>

definition pauseUntilKeyPressed :: "uint16 \<Rightarrow> Processor \<Rightarrow> error + Processor" where
  "pauseUntilKeyPressed x s =
     (case find (\<lambda>k. keyState s k) [0..<KeyCount] of
        Some k \<Rightarrow> (if \<not> reg_ok x then Inl IndexOutOfRange else Inr (set_reg (unat x) (of_nat k) s))
      | None \<Rightarrow> Inr (s\<lparr>pc := pc s - 2\<rparr>))"

definition setDelayToX :: "uint16 \<Rightarrow> Processor \<Rightarrow> error + Processor" where
  "setDelayToX x s =
     (if \<not> reg_ok x then Inl IndexOutOfRange else Inr (s\<lparr>delay := v s (unat x)\<rparr>))"

definition setSoundToX :: "uint16 \<Rightarrow> Processor \<Rightarrow> error + Processor" where
  "setSoundToX x s =
     (if \<not> reg_ok x then Inl IndexOutOfRange else Inr (s\<lparr>sound := v s (unat x)\<rparr>))"

definition setIToX :: "uint16 \<Rightarrow> Processor \<Rightarrow> error + Processor" where
  "setIToX x s =
     (if \<not> reg_ok x then Inl IndexOutOfRange
      else Inr (s\<lparr>i_reg := i_reg s + ucast (v s (unat x))\<rparr>))"

definition setIToSymbol :: "uint16 \<Rightarrow> Processor \<Rightarrow> error + Processor" where
  "setIToSymbol x s =
     (if \<not> reg_ok x then Inl IndexOutOfRange
      else let digit = (ucast (v s (unat x) AND 0x0F) :: uint16)
           in Inr (s\<lparr>i_reg := FontStartAddress + digit * 5\<rparr>))"

subsection \<open>Memory instructions\<close>

text \<open>\<^verbatim>\<open>cpu.memory[a] = b\<close> for a 16-bit address: Go panics when the index is 4096 or more.\<close>

definition mem_write :: "uint16 \<Rightarrow> byte \<Rightarrow> Processor \<Rightarrow> error + Processor" where
  "mem_write a b s =
     (if unat a < MemorySize then Inr (s\<lparr>memory := (memory s)(unat a := b)\<rparr>)
      else Inl IndexOutOfRange)"

definition and_then :: "error + 'a \<Rightarrow> ('a \<Rightarrow> error + 'b) \<Rightarrow> error + 'b" where
  "and_then r f = (case r of Inl e \<Rightarrow> Inl e | Inr a \<Rightarrow> f a)"

text \<open>One iteration of the double-dabble loop, for the loop index \<open>k\<close>.\<close>

definition dabble :: "uint32 \<Rightarrow> nat \<Rightarrow> uint32 \<Rightarrow> uint32" where
  "dabble val k bcd =
     (let b1 = (if (bcd AND 0x00F) \<ge> 5 then bcd + 3 else bcd);
          b2 = (if (b1 AND 0x0F0) \<ge> 0x050 then b1 + 0x030 else b1);
          b3 = (if (b2 AND 0xF00) \<ge> 0x500 then b2 + 0x300 else b2)
      in push_bit 1 b3 OR (drop_bit (7 - k) val AND 1))"

definition double_dabble :: "byte \<Rightarrow> uint32" where
  "double_dabble b = fold (dabble (ucast b)) [0..<8] 0"

definition binaryCodedDecimal :: "uint16 \<Rightarrow> Processor \<Rightarrow> error + Processor" where
  "binaryCodedDecimal x s =
     (if \<not> reg_ok x then Inl IndexOutOfRange
      else let bcd = double_dabble (v s (unat x))
           in and_then (mem_write (i_reg s) (ucast (drop_bit 8 bcd AND 0xF)) s) (\<lambda>s1.
              and_then (mem_write (i_reg s1 + 1) (ucast (drop_bit 4 bcd AND 0xF)) s1) (\<lambda>s2.
              mem_write (i_reg s2 + 2) (ucast (bcd AND 0xF)) s2)))"

text \<open>The block transfers: \<^verbatim>\<open>for i := uint16(0); i <= x; i++\<close>. The loop ends when \<open>k\<close>
  passes \<open>x\<close>, or with the panic of an index out of range.\<close>

function regs_to_mem :: "uint16 \<Rightarrow> uint16 \<Rightarrow> Processor \<Rightarrow> error + Processor" where
  "regs_to_mem x k s =
     (if k \<le> x then
        (if \<not> reg_ok k then Inl IndexOutOfRange
         else case mem_write (i_reg s + k) (v s (unat k)) s of
                Inl e \<Rightarrow> Inl e
              | Inr s1 \<Rightarrow> regs_to_mem x (k + 1) s1)
      else Inr s)"
  by pat_completeness auto
termination
  by (relation "measure (\<lambda>(x, k, s). RegisterCount - unat k)")
     (auto simp: reg_ok_def RegisterCount_def unat_word_ariths)

definition setRegistersToMemory :: "uint16 \<Rightarrow> Processor \<Rightarrow> error + Processor" where
  "setRegistersToMemory x s = regs_to_mem x 0 s"

function mem_to_regs :: "uint16 \<Rightarrow> uint16 \<Rightarrow> Processor \<Rightarrow> error + Processor" where
  "mem_to_regs x k s =
     (if k \<le> x then
        (if \<not> reg_ok k \<or> \<not> unat (i_reg s + k) < MemorySize then Inl IndexOutOfRange
         else mem_to_regs x (k + 1) (set_reg (unat k) (memory s (unat (i_reg s + k))) s))
      else Inr s)"
  by pat_completeness auto
termination
  by (relation "measure (\<lambda>(x, k, s). RegisterCount - unat k)")
     (auto simp: reg_ok_def RegisterCount_def unat_word_ariths)

definition setMemoryToRegisters :: "uint16 \<Rightarrow> Processor \<Rightarrow> error + Processor" where
  "setMemoryToRegisters x s = mem_to_regs x 0 s"


section \<open>Decoding and dispatch\<close>

text \<open>The operand fields of an opcode, as \<^verbatim>\<open>execute\<close> and \<^verbatim>\<open>Decode\<close> extract them.\<close>

definition op_kind :: "uint16 \<Rightarrow> uint16" where "op_kind opcode = drop_bit 12 (opcode AND 0xF000)"
definition op_x :: "uint16 \<Rightarrow> uint16" where "op_x opcode = drop_bit 8 (opcode AND 0x0F00)"
definition op_y :: "uint16 \<Rightarrow> uint16" where "op_y opcode = drop_bit 4 (opcode AND 0x00F0)"
definition op_n :: "uint16 \<Rightarrow> uint16" where "op_n opcode = opcode AND 0x000F"
definition op_nn :: "uint16 \<Rightarrow> uint16" where "op_nn opcode = opcode AND 0x00FF"
definition op_nnn :: "uint16 \<Rightarrow> uint16" where "op_nnn opcode = opcode AND 0x0FFF"

definition with_info :: "byte \<Rightarrow> error + Processor \<Rightarrow> error + Processor \<times> byte" where
  "with_info info r = (case r of Inl e \<Rightarrow> Inl e | Inr s \<Rightarrow> Inr (s, info))"

definition Execute8 :: "uint16 \<Rightarrow> Processor \<Rightarrow> error + Processor" where
  "Execute8 opcode s =
     (let x = op_x opcode; y = op_y opcode; n = op_n opcode
      in if n = 0x0 then setXToY x y s
         else if n = 0x1 then orXY x y s
         else if n = 0x2 then andXY x y s
         else if n = 0x3 then xorXY x y s
         else if n = 0x4 then addXY x y s
         else if n = 0x5 then subtractYFromX x y s
         else if n = 0x6 then shiftRightX x s
         else if n = 0x7 then subtractXFromY x y s
         else if n = 0xE then shiftLeftX x s
         else Inl UnknownOpcode)"

definition ExecuteE :: "uint16 \<Rightarrow> Processor \<Rightarrow> error + Processor" where
  "ExecuteE opcode s =
     (let x = op_x opcode; nn = op_nn opcode
      in if nn = 0x9E then stepIfKeyDown x s
         else if nn = 0xA1 then stepIfKeyUp x s
         else Inl UnknownOpcode)"

definition ExecuteF :: "uint16 \<Rightarrow> Processor \<Rightarrow> error + Processor" where
  "ExecuteF opcode s =
     (let x = op_x opcode; nn = op_nn opcode
      in if nn = 0x07 then setXToDelay x s
         else if nn = 0x0A then pauseUntilKeyPressed x s
         else if nn = 0x15 then setDelayToX x s
         else if nn = 0x18 then setSoundToX x s
         else if nn = 0x1E then setIToX x s
         else if nn = 0x29 then setIToSymbol x s
         else if nn = 0x33 then binaryCodedDecimal x s
         else if nn = 0x55 then setRegistersToMemory x s
         else if nn = 0x65 then setMemoryToRegisters x s
         else Inl UnknownOpcode)"

text \<open>\<^verbatim>\<open>Processor.Execute\<close>: the outer switch on the kind; the three nested switches are
  \<open>Execute8\<close>, \<open>ExecuteE\<close> and \<open>ExecuteF\<close>. The flags byte \<^verbatim>\<open>*info\<close> is passed in and
  returned.\<close>

definition Execute :: "uint16 \<Rightarrow> byte \<Rightarrow> byte \<Rightarrow> Processor \<Rightarrow> error + Processor \<times> byte" where
  "Execute opcode randomByte info s =
     (let kind = op_kind opcode; x = op_x opcode; y = op_y opcode; n = op_n opcode;
          nn = op_nn opcode; nnn = op_nnn opcode
      in if kind = 0x0 then
           (if opcode = 0x00E0 then Inr (clearScreen info s)
            else if opcode = 0x00EE then with_info info (returnFromSubroutine s)
            else Inl UnknownOpcode)
         else if kind = 0x1 then Inr (jumpToLocation nnn s, info)
         else if kind = 0x2 then with_info info (callSubroutine nnn s)
         else if kind = 0x3 then with_info info (stepIfXEqualsNN x nn s)
         else if kind = 0x4 then with_info info (stepIfXNotEqualsNN x nn s)
         else if kind = 0x5 then with_info info (stepIfXEqualsY x y s)
         else if kind = 0x6 then with_info info (setXToNN x nn s)
         else if kind = 0x7 then with_info info (addNNToX x nn s)
         else if kind = 0x8 then with_info info (Execute8 opcode s)
         else if kind = 0x9 then with_info info (stepIfXNotEqualsY x y s)
         else if kind = 0xA then Inr (setIToNNN nnn s, info)
         else if kind = 0xB then Inr (jumpWithOffset nnn s, info)
         else if kind = 0xC then with_info info (setXToRandom randomByte x nn s)
         else if kind = 0xD then drawSprite x y n info s
         else if kind = 0xE then with_info info (ExecuteE opcode s)
         else if kind = 0xF then with_info info (ExecuteF opcode s)
         else Inl UnknownOpcode)"

section \<open>Bulk memory access, load and reset\<close>

text \<open>\<^verbatim>\<open>for ; loc+i < 0xFFF && int(i) < len(data); i++\<close>, the sum \<open>loc + k\<close> in 16 bits.\<close>

function Write_loop :: "uint16 \<Rightarrow> byte list \<Rightarrow> uint16 \<Rightarrow> (nat \<Rightarrow> byte) \<Rightarrow> (nat \<Rightarrow> byte) \<times> uint16" where
  "Write_loop loc data k mem =
     (if loc + k < 0xFFF \<and> unat k < length data
      then Write_loop loc data (k + 1) (mem(unat (loc + k) := data ! unat k))
      else (mem, k))"
  by pat_completeness auto
termination
proof (relation "measure (\<lambda>(loc, data, k, mem). 0xFFF - unat (loc + k))")
  fix loc k :: uint16 and data :: "byte list" and mem :: "nat \<Rightarrow> byte"
  assume a: "loc + k < 0xFFF \<and> unat k < length data"
  then have below: "unat (loc + k) < 0xFFF"
    by (simp add: word_less_nat_alt)
  then have "unat (loc + k + 1) = Suc (unat (loc + k))"
    by (simp add: unat_word_ariths)
  with below show "((loc, data, k + 1, mem(unat (loc + k) := data ! unat k)), (loc, data, k, mem))
     \<in> measure (\<lambda>(loc, data, k, mem). 0xFFF - unat (loc + k))"
    by (simp add: add.assoc)
qed simp

definition Write :: "uint16 \<Rightarrow> byte list \<Rightarrow> Processor \<Rightarrow> Processor \<times> uint16" where
  "Write loc data s = (case Write_loop loc data 0 (memory s) of (mem, k) \<Rightarrow> (s\<lparr>memory := mem\<rparr>, k))"

function Read_loop :: "uint16 \<Rightarrow> uint16 \<Rightarrow> (nat \<Rightarrow> byte) \<Rightarrow> byte list \<Rightarrow> byte list \<times> uint16" where
  "Read_loop loc k mem data =
     (if loc + k < 0xFFF \<and> unat k < length data
      then Read_loop loc (k + 1) mem (data[unat k := mem (unat (loc + k))])
      else (data, k))"
  by pat_completeness auto
termination
proof (relation "measure (\<lambda>(loc, k, mem, data). 0xFFF - unat (loc + k))")
  fix loc k :: uint16 and data :: "byte list" and mem :: "nat \<Rightarrow> byte"
  assume a: "loc + k < 0xFFF \<and> unat k < length data"
  then have below: "unat (loc + k) < 0xFFF"
    by (simp add: word_less_nat_alt)
  then have "unat (loc + k + 1) = Suc (unat (loc + k))"
    by (simp add: unat_word_ariths)
  with below show "((loc, k + 1, mem, data[unat k := mem (unat (loc + k))]), (loc, k, mem, data))
     \<in> measure (\<lambda>(loc, k, mem, data). 0xFFF - unat (loc + k))"
    by (simp add: add.assoc)
qed simp

definition Read :: "uint16 \<Rightarrow> byte list \<Rightarrow> Processor \<Rightarrow> byte list \<times> uint16" where
  "Read loc data s = Read_loop loc 0 (memory s) data"

definition fontSet :: "byte list" where
  "fontSet =
    [0xF0, 0x90, 0x90, 0x90, 0xF0,
     0x20, 0x60, 0x20, 0x20, 0x70,
     0xF0, 0x10, 0xF0, 0x80, 0xF0,
     0xF0, 0x10, 0xF0, 0x10, 0xF0,
     0x90, 0x90, 0xF0, 0x10, 0x10,
     0xF0, 0x80, 0xF0, 0x10, 0xF0,
     0xF0, 0x80, 0xF0, 0x90, 0xF0,
     0xF0, 0x10, 0x20, 0x40, 0x40,
     0xF0, 0x90, 0xF0, 0x90, 0xF0,
     0xF0, 0x90, 0xF0, 0x10, 0xF0,
     0xF0, 0x90, 0xF0, 0x90, 0x90,
     0xE0, 0x90, 0xE0, 0x90, 0xE0,
     0xF0, 0x80, 0x80, 0x80, 0xF0,
     0xE0, 0x90, 0x90, 0x90, 0xE0,
     0xF0, 0x80, 0xF0, 0x80, 0xF0,
     0xF0, 0x80, 0xF0, 0x80, 0x80]"

text \<open>The zero value \<^verbatim>\<open>Processor{}\<close>; the zero instant is the origin of the time axis.\<close>

definition zeroProcessor :: Processor where
  "zeroProcessor =
     \<lparr>memory = (\<lambda>_. 0), v = (\<lambda>_. 0), keyState = (\<lambda>_. False), display = (\<lambda>_. 0),
      stack = (\<lambda>_. 0), sp = 0, pc = 0, i_reg = 0, delay = 0, sound = 0, lastTimerUpdate = 0\<rparr>"

definition Reset :: "error + Processor" where
  "Reset =
     (case Write FontStartAddress fontSet zeroProcessor of
        (s, written) \<Rightarrow> if unat written < length fontSet then Inl InsufficientMemory else Inr s)"

definition Load :: "byte list \<Rightarrow> Processor \<Rightarrow> error + Processor" where
  "Load b s =
     (case Write ProgramStartAddress b s of
        (s1, written) \<Rightarrow>
          if unat written < length b then Inl InsufficientMemory
          else Inr (s1\<lparr>pc := ProgramStartAddress\<rparr>))"

definition SetKey :: "byte \<Rightarrow> bool \<Rightarrow> Processor \<Rightarrow> Processor" where
  "SetKey key val s = s\<lparr>keyState := (keyState s)(unat (key AND 0x0F) := val)\<rparr>"

section \<open>The step loop\<close>

text \<open>\<^verbatim>\<open>OpcodeAt\<close> reads into the two-byte \<^verbatim>\<open>buffer\<close>; a successful read overwrites both of
  its bytes, so the buffer's earlier content does not matter.\<close>

definition OpcodeAt :: "uint16 \<Rightarrow> Processor \<Rightarrow> error + uint16" where
  "OpcodeAt offset s =
     (case Read offset [0, 0] s of
        (buffer, read) \<Rightarrow>
          if read < 2 then Inl ProgramRunaway
          else let high = (ucast (buffer ! 0) :: uint16); low = (ucast (buffer ! 1) :: uint16)
               in Inr (push_bit 8 high OR low))"

text \<open>The timer policy of \<^verbatim>\<open>Step\<close>. The clock is read twice, by \<^verbatim>\<open>time.Since\<close> (\<open>t_since\<close>)
  and by \<^verbatim>\<open>time.Now\<close> (\<open>t_now\<close>); both readings are inputs. \<^verbatim>\<open>time.Since\<close> saturates at
  the ends of \<^verbatim>\<open>int64\<close>, which does not change the comparison with \<open>TimerRate\<close>.\<close>

definition timer_due :: "int \<Rightarrow> Processor \<Rightarrow> bool" where
  "timer_due t_since s \<longleftrightarrow> t_since - lastTimerUpdate s \<ge> TimerRate"

definition tick_timers :: "int \<Rightarrow> int \<Rightarrow> Processor \<Rightarrow> Processor" where
  "tick_timers t_since t_now s =
     (if timer_due t_since s then
        (let s1 = (if sound s > 0 then s\<lparr>sound := sound s - 1\<rparr> else s);
             s2 = (if delay s1 > 0 then s1\<lparr>delay := delay s1 - 1\<rparr> else s1)
         in s2\<lparr>lastTimerUpdate := t_now\<rparr>)
      else s)"

definition timer_flags :: "byte \<Rightarrow> Processor \<Rightarrow> byte" where
  "timer_flags info s =
     (let info1 = (if sound s > 0 then info OR Sound else info)
      in if delay s > 0 then info1 OR Delay else info1)"

definition Step :: "byte \<Rightarrow> int \<Rightarrow> int \<Rightarrow> Processor \<Rightarrow> error + Processor \<times> byte" where
  "Step randomByte t_since t_now s =
     (case OpcodeAt (pc s) s of
        Inl e \<Rightarrow> Inl e
      | Inr opcode \<Rightarrow>
          (case Execute opcode randomByte 0 (s\<lparr>pc := pc s + 2\<rparr>) of
             Inl e \<Rightarrow> Inl e
           | Inr (s1, info) \<Rightarrow>
               (let s2 = tick_timers t_since t_now s1 in Inr (s2, timer_flags info s2))))"

section \<open>The legacy emulator (package chip8, type Emulator)\<close>

text \<open>The struct \<^verbatim>\<open>Emulator\<close>; its call stack is a linked list of nodes. The timers are
  the one-field structs \<^verbatim>\<open>delay\<close> and \<^verbatim>\<open>sound\<close>.\<close>

record Emulator =
  e_memory :: "nat \<Rightarrow> byte"
  e_v :: "nat \<Rightarrow> byte"
  e_keyState :: "nat \<Rightarrow> bool"
  e_stack :: "uint16 list"
  e_pc :: uint16
  e_i :: uint16
  e_delay :: byte
  e_sound :: byte
  e_running :: bool

text \<open>\<^verbatim>\<open>Emulator.drawSprite(buffer, x, y, height)\<close>. The parameter \<^verbatim>\<open>height\<close> hides the
  package constant of that name inside the body, so the second remainder is taken by the
  sprite height; a remainder by 0 panics. The two locals are returned beside the state.\<close>

definition Emulator_drawSprite ::
  "byte list \<Rightarrow> byte \<Rightarrow> byte \<Rightarrow> byte \<Rightarrow> Emulator \<Rightarrow> error + (uint16 \<times> uint16) \<times> Emulator" where
  "Emulator_drawSprite buffer x y height e =
     (let startX = (ucast x :: uint16) mod of_nat Width
      in if (ucast height :: uint16) = 0 then Inl DivideByZero
         else let startY = (ucast y :: uint16) mod ucast height
              in Inr ((startX, startY), e\<lparr>e_v := (e_v e)(0xF := 0)\<rparr>))"

text \<open>\<^verbatim>\<open>Emulator.Load\<close>: no bound on the index, so Go panics at the first address past the
  memory; otherwise the error returned is always \<^verbatim>\<open>nil\<close>.\<close>

fun Emulator_Load_loop :: "nat \<Rightarrow> byte list \<Rightarrow> Emulator \<Rightarrow> error + Emulator" where
  "Emulator_Load_loop k [] e = Inr e"
| "Emulator_Load_loop k (b # bs) e =
     (if unat ProgramStartAddress + k < MemorySize
      then Emulator_Load_loop (Suc k) bs (e\<lparr>e_memory := (e_memory e)(unat ProgramStartAddress + k := b)\<rparr>)
      else Inl IndexOutOfRange)"

definition Emulator_Load :: "byte list \<Rightarrow> Emulator \<Rightarrow> error + Emulator" where
  "Emulator_Load b e = Emulator_Load_loop 0 b e"

section \<open>The opcode objects\<close>

text \<open>The \<^verbatim>\<open>Execute\<close> methods of the opcode objects have the same bodies as the handlers
  above, except the two for subroutines, which keep the return addresses in a linked list
  of \<^verbatim>\<open>node\<close> values (\<^verbatim>\<open>cpu.stack = &node{value: cpu.pc, next: cpu.stack}\<close>).\<close>

text \<open>Modelled from the spec: the declaration of the processor that these two methods were
  written for is not among the source files. Of its fields the methods use the call stack,
  "a singly linked list of heap nodes", here the list of the node values from the head on,
  and the program counter.\<close>

record NodeProcessor =
  n_stack :: "uint16 list"
  n_pc :: uint16

definition SubroutineCall_Execute :: "uint16 \<Rightarrow> NodeProcessor \<Rightarrow> NodeProcessor" where
  "SubroutineCall_Execute nnn cpu = cpu\<lparr>n_stack := n_pc cpu # n_stack cpu, n_pc := nnn\<rparr>"

definition SubroutineReturn_Execute :: "NodeProcessor \<Rightarrow> error + NodeProcessor" where
  "SubroutineReturn_Execute cpu =
     (case n_stack cpu of
        [] \<Rightarrow> Inl ReturnFromEmptyStack
      | item # next \<Rightarrow> Inr (cpu\<lparr>n_pc := item, n_stack := next\<rparr>))"


section \<open>Observations\<close>

text \<open>What a handler leaves in the flag register and in a register \<open>x\<close>, when it
  returns.\<close>

definition flag_after :: "error + Processor \<Rightarrow> byte option" where
  "flag_after r = (case r of Inl e \<Rightarrow> None | Inr s \<Rightarrow> Some (v s CarryFlag))"

definition reg_after :: "uint16 \<Rightarrow> error + Processor \<Rightarrow> byte option" where
  "reg_after x r = (case r of Inl e \<Rightarrow> None | Inr s \<Rightarrow> Some (v s (unat x)))"

definition start_of :: "error + (uint16 \<times> uint16) \<times> Emulator \<Rightarrow> (uint16 \<times> uint16) option" where
  "start_of r = (case r of Inl e \<Rightarrow> None | Inr (start, e) \<Rightarrow> Some start)"

text \<open>The state used to try the arithmetic instructions: \<open>V1 = 0xFF\<close>, \<open>V2 = 0x01\<close>,
  all else zero.\<close>

definition arith_state :: Processor where
  "arith_state = set_reg 1 0xFF (set_reg 2 0x01 zeroProcessor)"

text \<open>The three bytes that \<^verbatim>\<open>binaryCodedDecimal\<close> stores for a register value, and the
  decimal digits of a number below 1000 as the specification names them (hundreds, tens,
  ones, by division and remainder).\<close>

definition bcd_digits :: "byte \<Rightarrow> byte \<times> byte \<times> byte" where
  "bcd_digits b =
     (let bcd = double_dabble b
      in (ucast (drop_bit 8 bcd AND 0xF), ucast (drop_bit 4 bcd AND 0xF), ucast (bcd AND 0xF)))"

definition dec_digits :: "nat \<Rightarrow> byte \<times> byte \<times> byte" where
  "dec_digits n = (of_nat (n div 100), of_nat ((n div 10) mod 10), of_nat (n mod 10))"

definition bcd_ok :: "nat \<Rightarrow> bool" where
  "bcd_ok n \<longleftrightarrow> bcd_digits (of_nat n) = dec_digits n"

definition bcd_ok_from :: "nat \<Rightarrow> nat \<Rightarrow> bool" where
  "bcd_ok_from lo k \<longleftrightarrow> bcd_ok (lo + k)"

text \<open>A property checked on every number below a bound, by running it on each.\<close>

fun all_below :: "(nat \<Rightarrow> bool) \<Rightarrow> nat \<Rightarrow> bool" where
  "all_below P 0 = True"
| "all_below P (Suc n) = (P n \<and> all_below P n)"

text \<open>A state with \<open>V3 = 156\<close> and the index register at 0x300.\<close>

definition bcd_state :: Processor where
  "bcd_state = set_reg 3 156 (zeroProcessor\<lparr>i_reg := 0x300\<rparr>)"

text \<open>A sequence of opcodes executed one after the other, stopping at the first panic.\<close>

fun Execute_all :: "uint16 list \<Rightarrow> byte \<Rightarrow> Processor \<Rightarrow> error + Processor" where
  "Execute_all [] randomByte s = Inr s"
| "Execute_all (opcode # rest) randomByte s =
     (case Execute opcode randomByte 0 s of
        Inl e \<Rightarrow> Inl e
      | Inr (s1, info) \<Rightarrow> Execute_all rest randomByte s1)"

text \<open>The loop equations are unfolded by hand, one iteration at a time.\<close>

declare regs_to_mem.simps [simp del]
declare mem_to_regs.simps [simp del]
declare Write_loop.simps [simp del]
declare Read_loop.simps [simp del]

text \<open>Two states with a program at 0x200: the wait-for-key instruction F30A, and F21E
  with \<open>V2 = 0xFF\<close> and the index register at 0xFFFE.\<close>

definition wait_state :: Processor where
  "wait_state = zeroProcessor\<lparr>memory := (\<lambda>_. 0)(0x200 := 0xF3, 0x201 := 0x0A), pc := 0x200\<rparr>"

definition add_i_state :: Processor where
  "add_i_state =
     set_reg 2 0xFF (zeroProcessor\<lparr>memory := (\<lambda>_. 0)(0x200 := 0xF2, 0x201 := 0x1E),
                                     pc := 0x200, i_reg := 0xFFFE\<rparr>)"

text \<open>The step loop as a scheduler drives it: \<open>Step\<close> is repeated, each time with the
  random byte and the two clock readings of that step. The number beside the final state
  counts the steps whose timer check found the timers due.\<close>

fun run_steps :: "(byte \<times> int \<times> int) list \<Rightarrow> Processor \<Rightarrow> error + Processor \<times> nat" where
  "run_steps [] s = Inr (s, 0)"
| "run_steps ((randomByte, t_since, t_now) # rest) s =
     (case Step randomByte t_since t_now s of
        Inl e \<Rightarrow> Inl e
      | Inr (s1, info) \<Rightarrow>
          (case run_steps rest s1 of
             Inl e \<Rightarrow> Inl e
           | Inr (s2, n) \<Rightarrow> Inr (s2, n + (if timer_due t_since s then 1 else 0))))"

text \<open>A state whose program is the one instruction 1200 at 0x200, a jump to itself, with
  the delay timer at 5.\<close>

definition loop_state :: Processor where
  "loop_state =
     zeroProcessor\<lparr>memory := (\<lambda>_. 0)(0x200 := 0x12, 0x201 := 0x00), pc := 0x200, delay := 5\<rparr>"

text \<open>A state with the index register at the last byte of memory and \<open>V0 = 7\<close>.\<close>

definition top_state :: Processor where
  "top_state = set_reg 0 7 (zeroProcessor\<lparr>i_reg := 0xFFF\<rparr>)"

text \<open>The zero value \<^verbatim>\<open>Emulator{}\<close>.\<close>

definition zeroEmulator :: Emulator where
  "zeroEmulator =
     \<lparr>e_memory = (\<lambda>_. 0), e_v = (\<lambda>_. 0), e_keyState = (\<lambda>_. False), e_stack = [],
      e_pc = 0, e_i = 0, e_delay = 0, e_sound = 0, e_running = False\<rparr>"
section \<open>Register 0xF in the arithmetic instructions\<close>

lemma reg_ok_15: "x \<noteq> 0xF \<Longrightarrow> unat (x::uint16) \<noteq> 15"
  by (auto simp: word_unat_eq_iff)

lemma byte_lt: "unat (a::byte) < 256"
proof -
  have "unat a < 2 ^ LENGTH(8)" by (rule unsigned_less)
  then show ?thesis by simp
qed

lemma add_unat: "unat ((ucast (a::byte) :: uint16) + ucast (b::byte)) = unat a + unat b"
  using byte_lt[of a] byte_lt[of b]
  by (simp add: unat_word_ariths unsigned_ucast_eq take_bit_nat_eq_self)

lemma add_carry: "(255 < (ucast (a::byte) :: uint16) + ucast (b::byte)) = (255 < unat a + unat b)"
  by (simp add: word_less_nat_alt add_unat)

lemma add_low: "(ucast (((ucast (a::byte) :: uint16) + ucast (b::byte)) AND 0xFF) :: byte) = a + b"
proof -
  have m: "(0xFF::uint16) = mask 8" by (simp add: mask_eq_exp_minus_1)
  have "((ucast (((ucast a :: uint16) + ucast b) AND 0xFF)) :: byte) = ucast ((ucast a :: uint16) + ucast b)"
    unfolding m by (rule bit_word_eqI) (auto simp: bit_simps)
  also have "\<dots> = a + b"
  proof -
    have "unat (ucast ((ucast a :: uint16) + ucast b) :: byte) =
            take_bit 8 (unat ((ucast a :: uint16) + ucast b))"
      by (simp only: unsigned_ucast_eq) simp
    also have "\<dots> = unat (a + b)"
      by (simp only: add_unat) (simp add: take_bit_eq_mod unat_word_ariths)
    finally show ?thesis by (simp only: word_unat_eq_iff)
  qed
  finally show ?thesis .
qed

lemma low_bit: "unat ((a::byte) AND 1) = unat a mod 2"
  by (simp add: and_one_eq unat_mod_distrib)

lemma high_bit: "unat (drop_bit 7 ((a::byte) AND 0x80)) = unat a div 128"
proof -
  have "(0x80 :: byte) = push_bit 7 1" by simp
  then have "drop_bit 7 (a AND 0x80) = drop_bit 7 a"
    by (simp only:) (rule bit_word_eqI, auto simp: bit_simps dest: bit_imp_le_length)
  then show ?thesis
    by (simp only:) (simp add: drop_bit_eq_div unat_div_distrib)
qed

lemmas handler_defs =
  orXY_def andXY_def xorXY_def addXY_def subtractYFromX_def subtractXFromY_def
  shiftRightX_def shiftLeftX_def set_reg_def CarryFlag_def Let_def

lemma logic_flags:
  assumes "reg_ok x" and "reg_ok y" and "x \<noteq> 0xF"
  shows "flag_after (orXY x y s) = Some 0"
    and "reg_after x (orXY x y s) = Some (v s (unat x) OR (if y = 0xF then 0 else v s (unat y)))"
    and "flag_after (andXY x y s) = Some 0"
    and "reg_after x (andXY x y s) = Some (v s (unat x) AND (if y = 0xF then 0 else v s (unat y)))"
    and "flag_after (xorXY x y s) = Some 0"
    and "reg_after x (xorXY x y s) = Some (v s (unat x) XOR (if y = 0xF then 0 else v s (unat y)))"
  using assms by (auto simp: handler_defs flag_after_def reg_after_def dest: reg_ok_15)

lemma add_flag:
  assumes "reg_ok x" and "reg_ok y" and "x \<noteq> 0xF"
  shows "flag_after (addXY x y s) =
           Some (if 255 < unat (v s (unat x)) + unat (v s (unat y)) then 1 else 0)"
    and "reg_after x (addXY x y s) = Some (v s (unat x) + v s (unat y))"
  using assms
  by (auto simp: handler_defs flag_after_def reg_after_def add_carry add_low dest: reg_ok_15)

lemma sub_flags:
  assumes "reg_ok x" and "reg_ok y" and "x \<noteq> 0xF" and "y \<noteq> 0xF"
  shows "flag_after (subtractYFromX x y s) = Some (if v s (unat x) \<ge> v s (unat y) then 1 else 0)"
    and "reg_after x (subtractYFromX x y s) = Some (v s (unat x) - v s (unat y))"
    and "flag_after (subtractXFromY x y s) = Some (if v s (unat y) \<ge> v s (unat x) then 1 else 0)"
    and "reg_after x (subtractXFromY x y s) = Some (v s (unat y) - v s (unat x))"
  using assms by (auto simp: handler_defs flag_after_def reg_after_def dest: reg_ok_15)

lemma shift_right_flag:
  assumes "reg_ok x" and "x \<noteq> 0xF"
  shows "map_option unat (flag_after (shiftRightX x s)) = Some (unat (v s (unat x)) mod 2)"
proof -
  from assms have "flag_after (shiftRightX x s) = Some (v s (unat x) AND 1)"
    by (auto simp: handler_defs flag_after_def dest: reg_ok_15)
  then show ?thesis by (simp only: option.map low_bit)
qed

lemma shift_left_flag:
  assumes "reg_ok x" and "x \<noteq> 0xF"
  shows "map_option unat (flag_after (shiftLeftX x s)) = Some (unat (v s (unat x)) div 128)"
proof -
  from assms have "unat x \<noteq> 15" by (rule_tac reg_ok_15)
  with assms have "flag_after (shiftLeftX x s) = Some (drop_bit 7 (v s (unat x) AND 0x80))"
    unfolding shiftLeftX_def flag_after_def set_reg_def CarryFlag_def Let_def
    by simp
  then show ?thesis by (simp only: option.map high_bit)
qed

lemmas eval_defs =
  handler_defs flag_after_def reg_after_def reg_ok_def RegisterCount_def zeroProcessor_def
  arith_state_def

text \<open>
  C1 (as amended). For register indices \<open>x\<close>, \<open>y\<close> below 16 with \<open>x \<noteq> 0xF\<close>:
  8XY1, 8XY2 and 8XY3 leave 0 in register 0xF and store in \<open>Vx\<close> the combination of \<open>Vx\<close>
  with \<open>Vy\<close> as it is read after register 0xF has been reset (so with 0 when \<open>y = 0xF\<close>);
  8XY4 stores \<open>(Vx + Vy) mod 256\<close> in \<open>Vx\<close> and leaves 1 in register 0xF if the sum
  exceeds 255 and 0 otherwise; and when also \<open>y \<noteq> 0xF\<close>, 8XY5 and 8XY7 leave 1 in
  register 0xF if the minuend is at least the subtrahend and 0 otherwise.
\<close>

theorem flags_of_logic_add_sub:
  "reg_ok x \<Longrightarrow> reg_ok y \<Longrightarrow> x \<noteq> 0xF \<Longrightarrow>
     (flag_after (orXY x y s) = Some 0 \<and>
      reg_after x (orXY x y s) = Some (v s (unat x) OR (if y = 0xF then 0 else v s (unat y)))) \<and>
     (flag_after (andXY x y s) = Some 0 \<and>
      reg_after x (andXY x y s) = Some (v s (unat x) AND (if y = 0xF then 0 else v s (unat y)))) \<and>
     (flag_after (xorXY x y s) = Some 0 \<and>
      reg_after x (xorXY x y s) = Some (v s (unat x) XOR (if y = 0xF then 0 else v s (unat y)))) \<and>
     (flag_after (addXY x y s) =
        Some (if 255 < unat (v s (unat x)) + unat (v s (unat y)) then 1 else 0) \<and>
      map_option unat (reg_after x (addXY x y s)) =
        Some ((unat (v s (unat x)) + unat (v s (unat y))) mod 256)) \<and>
     (y \<noteq> 0xF \<longrightarrow>
        flag_after (subtractYFromX x y s) = Some (if v s (unat x) \<ge> v s (unat y) then 1 else 0) \<and>
        flag_after (subtractXFromY x y s) = Some (if v s (unat y) \<ge> v s (unat x) then 1 else 0))"
proof -
  assume a: "reg_ok x" "reg_ok y" "x \<noteq> 0xF"
  have "map_option unat (reg_after x (addXY x y s)) =
          Some ((unat (v s (unat x)) + unat (v s (unat y))) mod 256)"
    by (simp add: add_flag(2)[OF a] unat_word_ariths)
  with logic_flags[OF a] add_flag(1)[OF a] sub_flags[OF a] show ?thesis
    by simp
qed

theorem flags_of_logic_add_sub_witness:
  "reg_ok 1 \<and> reg_ok 2 \<and> (1::uint16) \<noteq> 0xF \<and> (2::uint16) \<noteq> 0xF \<and>
   flag_after (orXY 1 2 arith_state) = Some 0 \<and>
   reg_after 1 (orXY 1 2 arith_state) = Some 0xFF \<and>
   flag_after (addXY 1 2 arith_state) = Some 1 \<and>
   map_option unat (reg_after 1 (addXY 1 2 arith_state)) = Some 0 \<and>
   flag_after (subtractYFromX 1 2 arith_state) = Some 1 \<and>
   flag_after (subtractXFromY 1 2 arith_state) = Some 0"
  using flags_of_logic_add_sub[of 1 2 arith_state]
  by (simp add: reg_ok_def RegisterCount_def arith_state_def set_reg_def zeroProcessor_def
        word_le_nat_alt)

text \<open>
  C1 as stated fails when \<open>x = 0xF\<close>: after 8F01 with \<open>V0 = 5\<close> register 0xF holds 5, not
  0, and after 8F04 with \<open>VF = 1\<close>, \<open>V0 = 0\<close> it holds 1 though the sum does not exceed
  255. It also fails for 8XY5 with \<open>y = 0xF\<close>: \<open>V0 = 3\<close>, \<open>VF = 5\<close> leaves 1 in
  register 0xF although 3 is less than 5.
\<close>

theorem flag_not_reset_when_x_is_F:
  "flag_after (orXY 0xF 0 (set_reg 0 5 zeroProcessor)) = Some 5 \<and>
   flag_after (addXY 0xF 0 (set_reg 0xF 1 zeroProcessor)) = Some 1 \<and>
   flag_after (subtractYFromX 0 0xF (set_reg 0 3 (set_reg 0xF 5 zeroProcessor))) = Some 1"
  by (simp add: eval_defs)

text \<open>For a target register other than 0xF the handlers do leave the flag in register
  0xF: the carry of 8XY4, the bit shifted out by 8XY6 and 8XYE, and (for \<open>y\<close> other than
  0xF) the no-borrow bit of 8XY5 and 8XY7.\<close>

lemma flag_held_when_x_is_not_F:
  "reg_ok x \<Longrightarrow> reg_ok y \<Longrightarrow> x \<noteq> 0xF \<Longrightarrow>
     flag_after (addXY x y s) =
       Some (if 255 < unat (v s (unat x)) + unat (v s (unat y)) then 1 else 0) \<and>
     map_option unat (flag_after (shiftRightX x s)) = Some (unat (v s (unat x)) mod 2) \<and>
     map_option unat (flag_after (shiftLeftX x s)) = Some (unat (v s (unat x)) div 128) \<and>
     (y \<noteq> 0xF \<longrightarrow>
        flag_after (subtractYFromX x y s) = Some (if v s (unat x) \<ge> v s (unat y) then 1 else 0) \<and>
        flag_after (subtractXFromY x y s) = Some (if v s (unat y) \<ge> v s (unat x) then 1 else 0))"
  using add_flag(1)[of x y s] shift_right_flag[of x s] shift_left_flag[of x s]
    sub_flags(1)[of x y s] sub_flags(3)[of x y s]
  by simp

text \<open>
  C2. The claim: for every register index \<open>x\<close>, also \<open>x = 0xF\<close>, register 0xF holds after
  8XY4, 8XY5, 8XY6, 8XY7 and 8XYE the carry, no-borrow or shifted-out bit, never the regular
  result. The handlers write the flag first and the result last, and all but \<^verbatim>\<open>addXY\<close>
  read their operand after the flag write, so at \<open>x = 0xF\<close> register 0xF holds neither:
  8F04 with \<open>VF = 0x10\<close>, \<open>V0 = 0x20\<close> leaves the sum 0x30 (carry 0); 8F06 leaves 0 whatever
  register 0xF held (with \<open>VF = 1\<close> the bit shifted out is 1); 8F0E with \<open>VF = 0x80\<close> leaves
  2 (bit 1, result 0); 8F05 with \<open>VF = 9\<close>, \<open>V0 = 4\<close> leaves 0xFC (no-borrow bit 1, result
  5); 8F07 with \<open>VF = 4\<close>, \<open>V0 = 9\<close> leaves 8 (no-borrow bit 1, result 5).
\<close>

theorem flag_register_clobbered_when_x_is_F:
  "flag_after (addXY 0xF 0 (set_reg 0xF 0x10 (set_reg 0 0x20 zeroProcessor))) = Some 0x30 \<and>
   flag_after (shiftRightX 0xF s) = Some 0 \<and>
   flag_after (shiftLeftX 0xF (set_reg 0xF 0x80 zeroProcessor)) = Some 2 \<and>
   flag_after (subtractYFromX 0xF 0 (set_reg 0xF 9 (set_reg 0 4 zeroProcessor))) = Some 0xFC \<and>
   flag_after (subtractXFromY 0xF 0 (set_reg 0xF 4 (set_reg 0 9 zeroProcessor))) = Some 8"
proof -
  have "drop_bit 1 (b AND 1) = 0" for b :: byte
    by (rule bit_word_eqI) (auto simp: bit_simps)
  then have "flag_after (shiftRightX 0xF s) = Some 0"
    by (simp add: shiftRightX_def flag_after_def set_reg_def CarryFlag_def reg_ok_def
          RegisterCount_def Let_def)
  then show ?thesis
    by (simp add: eval_defs word_le_nat_alt)
qed

section \<open>The sprite origin of the legacy emulator\<close>

text \<open>
  C7. The claim: the sprite origin is \<open>(Vx mod 64, Vy mod 32)\<close>. In
  \<^verbatim>\<open>Emulator.drawSprite\<close> the start row is the remainder by the sprite height: for
  \<open>Vy = 10\<close> and a sprite of height 4 it is 2, not 10; and a sprite of height 0 panics.
\<close>

theorem drawSprite_start_row_by_sprite_height:
  "start_of (Emulator_drawSprite buffer 70 10 4 e) = Some (6, 2) \<and>
   Emulator_drawSprite buffer 70 10 0 e = Inl DivideByZero"
  by (simp add: Emulator_drawSprite_def start_of_def Width_def word_mod_def)

section \<open>Binary-coded decimal\<close>

lemma upt8: "[0..<8] = [0, 1, 2, 3, 4, 5, 6, 7]"
  by code_simp

lemma double_dabble_unrolled:
  "double_dabble b =
     dabble (ucast b) 7 (dabble (ucast b) 6 (dabble (ucast b) 5 (dabble (ucast b) 4
       (dabble (ucast b) 3 (dabble (ucast b) 2 (dabble (ucast b) 1 (dabble (ucast b) 0 0)))))))"
  by (simp add: double_dabble_def upt8)

lemmas bcd_eval =
  bcd_ok_def bcd_digits_def double_dabble_unrolled dabble_def Let_def word_le_nat_alt
  dec_digits_def

lemma all_below_iff: "all_below P n \<longleftrightarrow> (\<forall>k<n. P k)"
  by (induction n) (auto simp: less_Suc_eq)

lemma all_below_numeral:
  "all_below P (numeral k) = (P (pred_numeral k) \<and> all_below P (pred_numeral k))"
  by (simp add: numeral_eq_Suc)

lemma all_below_1: "all_below P 1 = P 0"
  by simp

lemmas bcd_run = all_below_numeral all_below_1 bcd_ok_from_def bcd_eval

text \<open>The double-dabble loop is run on each of the 256 register values, in four parts.\<close>

lemma bcd_ok_part_0: "all_below (bcd_ok_from 0) 64"
  by (simp add: bcd_run)

lemma bcd_ok_part_1: "all_below (bcd_ok_from 64) 64"
  by (simp add: bcd_run)

lemma bcd_ok_part_2: "all_below (bcd_ok_from 128) 64"
  by (simp add: bcd_run)

lemma bcd_ok_part_3: "all_below (bcd_ok_from 192) 64"
  by (simp add: bcd_run)

lemma bcd_ok_all: "n < 256 \<Longrightarrow> bcd_ok n"
proof -
  have part: "bcd_ok (lo + k)" if "all_below (bcd_ok_from lo) 64" "k < 64" for lo k
    using that by (simp add: all_below_iff bcd_ok_from_def)
  assume "n < 256"
  then consider "n < 64" | "64 \<le> n" "n < 128" | "128 \<le> n" "n < 192" | "192 \<le> n" "n < 256"
    by linarith
  then show ?thesis
  proof cases
    case 1
    with part[OF bcd_ok_part_0, of n] show ?thesis by simp
  next
    case 2
    with part[OF bcd_ok_part_1, of "n - 64"] show ?thesis by simp
  next
    case 3
    with part[OF bcd_ok_part_2, of "n - 128"] show ?thesis by simp
  next
    case 4
    with part[OF bcd_ok_part_3, of "n - 192"] show ?thesis by simp
  qed
qed

lemma bcd_digits_eq: "bcd_digits b = dec_digits (unat b)"
  using bcd_ok_all[OF byte_lt[of b]] by (simp add: bcd_ok_def)

lemma bcd_bytes:
  "ucast (drop_bit 8 (double_dabble b) AND 0xF) = (of_nat (unat b div 100) :: byte)"
  "ucast (drop_bit 4 (double_dabble b) AND 0xF) = (of_nat ((unat b div 10) mod 10) :: byte)"
  "ucast (double_dabble b AND 0xF) = (of_nat (unat b mod 10) :: byte)"
  using bcd_digits_eq[of b] unfolding bcd_digits_def dec_digits_def Let_def by simp_all

lemma addr_plus:
  assumes "unat (a::uint16) + 2 < MemorySize"
  shows "unat (a + 1) = unat a + 1" and "unat (a + 2) = unat a + 2"
  using assms by (simp_all add: MemorySize_def unat_word_ariths)

lemma bcd_in_range:
  assumes "reg_ok x" and "unat (i_reg s) + 2 < MemorySize"
  shows "binaryCodedDecimal x s =
       Inr (s\<lparr>memory := (memory s)
              (unat (i_reg s) := of_nat (unat (v s (unat x)) div 100),
               unat (i_reg s) + 1 := of_nat ((unat (v s (unat x)) div 10) mod 10),
               unat (i_reg s) + 2 := of_nat (unat (v s (unat x)) mod 10))\<rparr>)"
  using assms unfolding binaryCodedDecimal_def Let_def bcd_bytes
  by (simp add: and_then_def mem_write_def addr_plus)

text \<open>
  C3 (as amended). For every register value held in \<open>Vx\<close> and every index register value
  \<open>I\<close> with \<open>I + 2 \<le> 0xFFF\<close>, FX33 writes exactly three bytes, the hundreds digit
  \<open>v div 100\<close> at \<open>I\<close>, the tens digit \<open>(v div 10) mod 10\<close> at \<open>I + 1\<close> and the ones digit
  \<open>v mod 10\<close> at \<open>I + 2\<close>, and changes nothing else; the double-dabble loop yields exactly
  these digits for each of the 256 values, and 156 gives 1, 5, 6.
\<close>

theorem bcd_writes_decimal_digits:
  "reg_ok x \<Longrightarrow> unat (i_reg s) + 2 < MemorySize \<Longrightarrow>
     binaryCodedDecimal x s =
       Inr (s\<lparr>memory := (memory s)
              (unat (i_reg s) := of_nat (unat (v s (unat x)) div 100),
               unat (i_reg s) + 1 := of_nat ((unat (v s (unat x)) div 10) mod 10),
               unat (i_reg s) + 2 := of_nat (unat (v s (unat x)) mod 10))\<rparr>) \<and>
     bcd_digits (v s (unat x)) = dec_digits (unat (v s (unat x))) \<and>
     bcd_digits 156 = (1, 5, 6)"
proof -
  assume a: "reg_ok x" "unat (i_reg s) + 2 < MemorySize"
  have "bcd_digits 156 = (1, 5, 6)"
    using bcd_digits_eq[of 156] by (simp add: dec_digits_def)
  with bcd_in_range[OF a] show ?thesis
    by (simp add: bcd_digits_eq)
qed

theorem bcd_writes_decimal_digits_witness:
  "reg_ok 3 \<and> unat (i_reg bcd_state) + 2 < MemorySize \<and>
   binaryCodedDecimal 3 bcd_state =
     Inr (bcd_state\<lparr>memory := (memory bcd_state)(0x300 := 1, 0x301 := 5, 0x302 := 6)\<rparr>)"
  using bcd_writes_decimal_digits[of 3 bcd_state]
  by (simp add: reg_ok_def RegisterCount_def MemorySize_def bcd_state_def set_reg_def
        zeroProcessor_def)

text \<open>
  C3 as stated fails for an index register near the top of memory: with \<open>I = 0xFFE\<close> the
  third byte would go to address 0x1000, and the instruction stops with Go's index panic.
\<close>

theorem bcd_panics_at_top_of_memory:
  "binaryCodedDecimal 0 (zeroProcessor\<lparr>i_reg := 0xFFE\<rparr>) = Inl IndexOutOfRange"
  unfolding binaryCodedDecimal_def Let_def bcd_bytes
  by (simp add: and_then_def mem_write_def zeroProcessor_def MemorySize_def reg_ok_def
        RegisterCount_def)

section \<open>What an instruction leaves alone, and the call stack\<close>

lemma regs_to_mem_frame:
  "regs_to_mem x k s = Inr s' \<Longrightarrow> s' = s\<lparr>memory := memory s'\<rparr>"
proof (induction x k s rule: regs_to_mem.induct)
  case (1 x k s)
  show ?case
  proof (cases "k \<le> x")
    case False
    with "1.prems" show ?thesis by (simp add: regs_to_mem.simps[of x k s])
  next
    case True
    with "1.prems" obtain s1 where ok: "reg_ok k" and w: "mem_write (i_reg s + k) (v s (unat k)) s = Inr s1"
      and r: "regs_to_mem x (k + 1) s1 = Inr s'"
      by (auto simp: regs_to_mem.simps[of x k s] split: if_splits sum.splits)
    from "1.IH"[OF True _ w r] ok have "s' = s1\<lparr>memory := memory s'\<rparr>" by simp
    moreover from w have "s1 = s\<lparr>memory := memory s1\<rparr>"
      by (auto simp: mem_write_def split: if_splits)
    ultimately show ?thesis by (metis Processor.surjective Processor.update_convs(1))
  qed
qed

lemma mem_to_regs_frame:
  "mem_to_regs x k s = Inr s' \<Longrightarrow> s' = s\<lparr>v := v s'\<rparr>"
proof (induction x k s rule: mem_to_regs.induct)
  case (1 x k s)
  show ?case
  proof (cases "k \<le> x")
    case False
    with "1.prems" show ?thesis by (simp add: mem_to_regs.simps[of x k s])
  next
    case True
    with "1.prems" have ok: "\<not> (\<not> reg_ok k \<or> \<not> unat (i_reg s + k) < MemorySize)"
      and r: "mem_to_regs x (k + 1) (set_reg (unat k) (memory s (unat (i_reg s + k))) s) = Inr s'"
      by (auto simp: mem_to_regs.simps[of x k s] split: if_splits)
    from "1.IH"[OF True ok r]
    show ?thesis by (simp add: set_reg_def)
  qed
qed


lemma block_transfer_frame:
  "setRegistersToMemory x s = Inr s' \<Longrightarrow> sp s' = sp s \<and> lastTimerUpdate s' = lastTimerUpdate s"
  "setMemoryToRegisters x s = Inr s' \<Longrightarrow> sp s' = sp s \<and> lastTimerUpdate s' = lastTimerUpdate s"
  unfolding setRegistersToMemory_def setMemoryToRegisters_def
  by (drule regs_to_mem_frame mem_to_regs_frame, frule arg_cong[where f=sp],
      drule arg_cong[where f=lastTimerUpdate], simp)+

lemma bcd_frame:
  "binaryCodedDecimal x s = Inr s' \<Longrightarrow> sp s' = sp s \<and> lastTimerUpdate s' = lastTimerUpdate s"
  by (auto simp: binaryCodedDecimal_def and_then_def mem_write_def Let_def split: if_splits)

lemma pause_frame:
  "pauseUntilKeyPressed x s = Inr s' \<Longrightarrow> sp s' = sp s \<and> lastTimerUpdate s' = lastTimerUpdate s"
  by (auto simp: pauseUntilKeyPressed_def set_reg_def split: if_splits option.splits)

lemma ExecuteF_frame:
  "ExecuteF opcode s = Inr s' \<Longrightarrow> sp s' = sp s \<and> lastTimerUpdate s' = lastTimerUpdate s"
  unfolding ExecuteF_def Let_def
  by (auto simp: setXToDelay_def setDelayToX_def setSoundToX_def setIToX_def setIToSymbol_def
        set_reg_def Let_def
      dest: block_transfer_frame bcd_frame pause_frame split: if_splits)

lemma ExecuteE_frame:
  "ExecuteE opcode s = Inr s' \<Longrightarrow> sp s' = sp s \<and> lastTimerUpdate s' = lastTimerUpdate s"
  unfolding ExecuteE_def Let_def
  by (auto simp: stepIfKeyDown_def stepIfKeyUp_def Let_def split: if_splits)

lemma Execute8_frame:
  "Execute8 opcode s = Inr s' \<Longrightarrow> sp s' = sp s \<and> lastTimerUpdate s' = lastTimerUpdate s"
  unfolding Execute8_def Let_def
  by (auto simp: setXToY_def handler_defs split: if_splits)

lemma Execute_timer_frame:
  "Execute opcode r info s = Inr (s', info') \<Longrightarrow> lastTimerUpdate s' = lastTimerUpdate s"
  unfolding Execute_def Let_def
  by (auto simp: with_info_def clearScreen_def returnFromSubroutine_def callSubroutine_def
        jumpToLocation_def stepIfXEqualsNN_def stepIfXNotEqualsNN_def stepIfXEqualsY_def
        stepIfXNotEqualsY_def setXToNN_def addNNToX_def setIToNNN_def jumpWithOffset_def
        setXToRandom_def drawSprite_def DrawSprite_def set_reg_def Let_def
      dest: Execute8_frame ExecuteE_frame ExecuteF_frame split: if_splits sum.splits)


lemmas Execute_unfold =
  with_info_def clearScreen_def returnFromSubroutine_def callSubroutine_def
  jumpToLocation_def stepIfXEqualsNN_def stepIfXNotEqualsNN_def stepIfXEqualsY_def
  stepIfXNotEqualsY_def setXToNN_def addNNToX_def setIToNNN_def jumpWithOffset_def
  setXToRandom_def drawSprite_def DrawSprite_def set_reg_def Let_def

lemma sp_succ: "unat (b::byte) < 16 \<Longrightarrow> unat (b + 1) = Suc (unat b)"
  by (simp add: unat_word_ariths)

lemma Execute_depth:
  "Execute opcode r info s = Inr (s', info') \<Longrightarrow> unat (sp s) \<le> StackSize \<Longrightarrow>
     unat (sp s') \<le> StackSize"
  unfolding Execute_def Let_def
  by (auto simp: Execute_unfold StackSize_def sp_succ
      dest: Execute8_frame ExecuteE_frame ExecuteF_frame split: if_splits sum.splits)

lemma Execute_call:
  "op_kind opcode = 0x2 \<Longrightarrow>
     Execute opcode r info s = with_info info (callSubroutine (op_nnn opcode) s)"
  by (simp add: Execute_def)

lemma calls_succeed:
  "\<forall>opcode \<in> set ops. op_kind opcode = 0x2 \<Longrightarrow> unat (sp s) + length ops \<le> StackSize \<Longrightarrow>
     \<exists>s'. Execute_all ops r s = Inr s' \<and> unat (sp s') = unat (sp s) + length ops"
proof (induction ops arbitrary: s)
  case Nil
  then show ?case by simp
next
  case (Cons opcode ops)
  let ?s1 = "s\<lparr>stack := (stack s)(unat (sp s) := pc s), sp := sp s + 1, pc := op_nnn opcode\<rparr>"
  from Cons.prems have lt: "unat (sp s) < 16" by (simp add: StackSize_def)
  then have e: "Execute opcode r 0 s = Inr (?s1, 0)"
    using Cons.prems by (simp add: Execute_call with_info_def callSubroutine_def StackSize_def)
  from lt have d: "unat (sp ?s1) = Suc (unat (sp s))" by (simp add: sp_succ)
  with Cons.prems have "\<exists>s'. Execute_all ops r ?s1 = Inr s' \<and> unat (sp s') = unat (sp ?s1) + length ops"
    by (intro Cons.IH) simp_all
  with e d show ?case by simp
qed

lemma call_on_full_stack:
  "op_kind opcode = 0x2 \<Longrightarrow> unat (sp s) = StackSize \<Longrightarrow>
     Execute opcode r info s = Inl StackOverflow"
  by (simp add: Execute_call with_info_def callSubroutine_def)

lemma return_on_empty_stack:
  "sp s = 0 \<Longrightarrow> Execute 0x00EE r info s = Inl StackUnderflow"
  by (simp add: Execute_def op_kind_def with_info_def returnFromSubroutine_def)

lemma node_calls_depth:
  "length (n_stack (fold SubroutineCall_Execute ns cpu)) = length (n_stack cpu) + length ns"
  by (induction ns arbitrary: cpu) (simp_all add: SubroutineCall_Execute_def)

text \<open>
  C4 (as amended). The call stack of \<open>Processor\<close> has capacity 16 and its depth never
  exceeds 16: from an empty stack, 16 consecutive 2NNN calls succeed and leave the depth at
  16, and a 17th call then raises the stack-overflow panic; 00EE on an empty stack raises
  the stack-underflow panic; and no instruction takes a depth of at most 16 above 16. The
  opcode objects \<open>SubroutineCall\<close> and \<open>SubroutineReturn\<close> keep the return addresses in a
  linked list without a capacity: there every call succeeds and adds one to the depth, and
  a return on the empty list panics.
\<close>

theorem call_stack_bounded:
  "(sp s = 0 \<and> length ops = 16 \<and> (\<forall>opcode \<in> set ops. op_kind opcode = 0x2) \<and> op_kind extra = 0x2 \<longrightarrow>
      (\<exists>s16. Execute_all ops r s = Inr s16 \<and> unat (sp s16) = 16 \<and>
             Execute extra r info s16 = Inl StackOverflow)) \<and>
   (sp s = 0 \<longrightarrow> Execute 0x00EE r info s = Inl StackUnderflow) \<and>
   (unat (sp s) \<le> StackSize \<and> Execute opcode r info s = Inr (s', info') \<longrightarrow>
      unat (sp s') \<le> StackSize) \<and>
   length (n_stack (fold SubroutineCall_Execute ns cpu)) = length (n_stack cpu) + length ns \<and>
   (n_stack cpu = [] \<longrightarrow> SubroutineReturn_Execute cpu = Inl ReturnFromEmptyStack)"
proof (intro conjI impI)
  assume a: "sp s = 0 \<and> length ops = 16 \<and> (\<forall>opcode \<in> set ops. op_kind opcode = 0x2) \<and> op_kind extra = 0x2"
  then have "\<exists>s16. Execute_all ops r s = Inr s16 \<and> unat (sp s16) = unat (sp s) + length ops"
    by (intro calls_succeed) (simp_all add: StackSize_def)
  then obtain s16 where "Execute_all ops r s = Inr s16" "unat (sp s16) = 16"
    using a by auto
  moreover from this a have "Execute extra r info s16 = Inl StackOverflow"
    by (intro call_on_full_stack) (simp_all add: StackSize_def)
  ultimately show "\<exists>s16. Execute_all ops r s = Inr s16 \<and> unat (sp s16) = 16 \<and>
             Execute extra r info s16 = Inl StackOverflow" by blast
next
  assume "sp s = 0"
  then show "Execute 0x00EE r info s = Inl StackUnderflow" by (rule return_on_empty_stack)
next
  assume "unat (sp s) \<le> StackSize \<and> Execute opcode r info s = Inr (s', info')"
  then show "unat (sp s') \<le> StackSize" using Execute_depth by blast
next
  show "length (n_stack (fold SubroutineCall_Execute ns cpu)) = length (n_stack cpu) + length ns"
    by (rule node_calls_depth)
next
  assume "n_stack cpu = []"
  then show "SubroutineReturn_Execute cpu = Inl ReturnFromEmptyStack"
    by (simp add: SubroutineReturn_Execute_def)
qed

theorem call_stack_bounded_witness:
  "sp zeroProcessor = 0 \<and> length (replicate 16 (0x2300::uint16)) = 16 \<and>
   list_all (\<lambda>opcode. op_kind opcode = 0x2) (replicate 16 (0x2300::uint16)) \<and>
   op_kind 0x2400 = 0x2 \<and>
   (\<exists>s16. Execute_all (replicate 16 0x2300) 0 zeroProcessor = Inr s16 \<and> unat (sp s16) = 16 \<and>
          Execute 0x2400 0 0 s16 = Inl StackOverflow) \<and>
   Execute 0x00EE 0 0 zeroProcessor = Inl StackUnderflow \<and>
   unat (sp zeroProcessor) \<le> StackSize \<and>
   Execute 0x2300 0 0 zeroProcessor = Inr (zeroProcessor\<lparr>sp := 1, pc := 0x300\<rparr>, 0) \<and>
   unat (sp (zeroProcessor\<lparr>sp := 1, pc := 0x300\<rparr>)) \<le> StackSize \<and>
   n_stack \<lparr>n_stack = [], n_pc = 0x200\<rparr> = [] \<and>
   SubroutineReturn_Execute \<lparr>n_stack = [], n_pc = 0x200\<rparr> = Inl ReturnFromEmptyStack"
  using call_stack_bounded[where s = zeroProcessor and ops = "replicate 16 0x2300"
      and extra = "0x2400" and r = 0 and info = 0 and opcode = "0x2300"
      and s' = "zeroProcessor\<lparr>sp := 1, pc := 0x300\<rparr>" and info' = 0
      and cpu = "\<lparr>n_stack = [], n_pc = 0x200\<rparr>"]
  by (simp add: zeroProcessor_def op_kind_def op_nnn_def Execute_def with_info_def
        callSubroutine_def StackSize_def fun_upd_idem list_all_iff)

text \<open>
  C4 as stated fails on the opcode objects: 17 nested calls through
  \<^verbatim>\<open>SubroutineCall.Execute\<close> from an empty stack all succeed and leave 17 return addresses.
\<close>

theorem linked_stack_takes_a_17th_call:
  "length (n_stack (fold SubroutineCall_Execute (replicate 17 0x300)
                      \<lparr>n_stack = [], n_pc = 0x200\<rparr>)) = 17"
  by (simp only: node_calls_depth) simp

section \<open>One step: wait-for-key and add-to-index\<close>

lemma op_x_ok: "reg_ok (op_x opcode)"
proof -
  have "opcode AND 0x0F00 \<le> 0x0F00" by (rule word_and_le1)
  then have "unat (opcode AND 0x0F00) \<le> 0xF00" by (simp add: word_le_nat_alt)
  then have "unat (opcode AND 0x0F00) div 256 < 16" by simp
  then show ?thesis
    by (simp add: reg_ok_def op_x_def RegisterCount_def drop_bit_eq_div unat_div_distrib)
qed

lemma Step_of_Execute:
  "OpcodeAt (pc s) s = Inr opcode \<Longrightarrow>
   Execute opcode r 0 (s\<lparr>pc := pc s + 2\<rparr>) = Inr (s1, info) \<Longrightarrow>
   Step r t1 t2 s = Inr (tick_timers t1 t2 s1, timer_flags info (tick_timers t1 t2 s1))"
  by (simp add: Step_def Let_def)

lemma tick_timers_frame:
  "pc (tick_timers t1 t2 s) = pc s" "v (tick_timers t1 t2 s) = v s"
  "memory (tick_timers t1 t2 s) = memory s" "i_reg (tick_timers t1 t2 s) = i_reg s"
  "stack (tick_timers t1 t2 s) = stack s" "sp (tick_timers t1 t2 s) = sp s"
  "keyState (tick_timers t1 t2 s) = keyState s" "display (tick_timers t1 t2 s) = display s"
  by (simp_all add: tick_timers_def Let_def)

lemma Execute_wait:
  "op_kind opcode = 0xF \<Longrightarrow> op_nn opcode = 0x0A \<Longrightarrow>
     Execute opcode r info s = with_info info (pauseUntilKeyPressed (op_x opcode) s)"
  by (simp add: Execute_def ExecuteF_def)

lemma no_key_pressed:
  assumes "\<forall>k<KeyCount. \<not> keyState s k"
  shows "pauseUntilKeyPressed x s = Inr (s\<lparr>pc := pc s - 2\<rparr>)"
proof -
  from assms have "find (\<lambda>k. keyState s k) [0..<KeyCount] = None"
    unfolding find_None_iff by simp
  then show ?thesis by (simp add: pauseUntilKeyPressed_def)
qed

lemma first_key_pressed:
  assumes "k < KeyCount" and "keyState s k" and "\<forall>j<k. \<not> keyState s j"
  shows "find (\<lambda>k. keyState s k) [0..<KeyCount] = Some k"
  unfolding find_Some_iff using assms by (intro exI[of _ k]) simp

lemma key_pressed:
  "k < KeyCount \<Longrightarrow> keyState s k \<Longrightarrow> \<forall>j<k. \<not> keyState s j \<Longrightarrow> reg_ok x \<Longrightarrow>
     pauseUntilKeyPressed x s = Inr (set_reg (unat x) (of_nat k) s)"
  by (simp add: pauseUntilKeyPressed_def first_key_pressed)

text \<open>
  C5. For the wait-for-key instruction FX0A, fetched at the program counter: if no key is
  pressed, the program counter after the whole step equals its value before the step; if a
  key is pressed, the lowest pressed key index is stored in \<open>Vx\<close> and the program counter
  is advanced by 2.
\<close>

theorem wait_for_key_step:
  "OpcodeAt (pc s) s = Inr opcode \<Longrightarrow> op_kind opcode = 0xF \<Longrightarrow> op_nn opcode = 0x0A \<Longrightarrow>
     ((\<forall>k<KeyCount. \<not> keyState s k) \<longrightarrow>
        (\<exists>s' info. Step r t1 t2 s = Inr (s', info) \<and> pc s' = pc s)) \<and>
     (\<forall>k<KeyCount. keyState s k \<and> (\<forall>j<k. \<not> keyState s j) \<longrightarrow>
        (\<exists>s' info. Step r t1 t2 s = Inr (s', info) \<and>
           v s' (unat (op_x opcode)) = of_nat k \<and> pc s' = pc s + 2))"
proof -
  assume f: "OpcodeAt (pc s) s = Inr opcode" and k: "op_kind opcode = 0xF" "op_nn opcode = 0x0A"
  let ?s0 = "s\<lparr>pc := pc s + 2\<rparr>"
  have none: "\<exists>s' info. Step r t1 t2 s = Inr (s', info) \<and> pc s' = pc s"
    if "\<forall>k<KeyCount. \<not> keyState s k"
  proof -
    from that have "Execute opcode r 0 ?s0 = Inr (?s0\<lparr>pc := pc ?s0 - 2\<rparr>, 0)"
      by (simp add: Execute_wait[OF k] no_key_pressed with_info_def)
    from Step_of_Execute[OF f this] show ?thesis
      by (simp add: tick_timers_frame)
  qed
  have some: "\<exists>s' info. Step r t1 t2 s = Inr (s', info) \<and>
           v s' (unat (op_x opcode)) = of_nat j \<and> pc s' = pc s + 2"
    if "j < KeyCount" "keyState s j" "\<forall>i<j. \<not> keyState s i" for j
  proof -
    from that have "Execute opcode r 0 ?s0 = Inr (set_reg (unat (op_x opcode)) (of_nat j) ?s0, 0)"
      by (simp add: Execute_wait[OF k] key_pressed op_x_ok with_info_def)
    from Step_of_Execute[OF f this] show ?thesis
      by (simp add: tick_timers_frame set_reg_def)
  qed
  from none some show ?thesis by blast
qed

lemmas fetch_eval =
  OpcodeAt_def Read_def Read_loop.simps word_less_nat_alt

theorem wait_for_key_step_witness:
  "OpcodeAt (pc wait_state) wait_state = Inr 0xF30A \<and>
   op_kind 0xF30A = 0xF \<and> op_nn 0xF30A = 0x0A \<and>
   list_all (\<lambda>k. \<not> keyState wait_state k) [0..<KeyCount] \<and>
   (\<exists>s' info. Step 0 0 0 wait_state = Inr (s', info) \<and> pc s' = 0x200) \<and>
   OpcodeAt (pc (SetKey 5 True wait_state)) (SetKey 5 True wait_state) = Inr 0xF30A \<and>
   5 < KeyCount \<and> keyState (SetKey 5 True wait_state) 5 \<and>
   list_all (\<lambda>j. \<not> keyState (SetKey 5 True wait_state) j) [0..<5] \<and>
   (\<exists>s' info. Step 0 0 0 (SetKey 5 True wait_state) = Inr (s', info) \<and>
      v s' 3 = 5 \<and> pc s' = 0x202)"
proof -
  let ?p = "SetKey 5 True wait_state"
  have f1: "OpcodeAt (pc wait_state) wait_state = Inr 0xF30A"
    by (simp add: fetch_eval wait_state_def zeroProcessor_def)
  have f2: "OpcodeAt (pc ?p) ?p = Inr 0xF30A"
    by (simp add: fetch_eval wait_state_def zeroProcessor_def SetKey_def)
  have k: "op_kind 0xF30A = 0xF" "op_nn 0xF30A = 0x0A"
    by (simp_all add: op_kind_def op_nn_def)
  have n: "\<forall>k<KeyCount. \<not> keyState wait_state k"
    by (simp add: wait_state_def zeroProcessor_def)
  have p: "5 < KeyCount" "keyState ?p 5" "\<forall>j<5. \<not> keyState ?p j"
    by (simp_all add: wait_state_def zeroProcessor_def SetKey_def KeyCount_def)
  from wait_for_key_step[OF f1 k, of 0 0 0] n
  have A: "\<exists>s' info. Step 0 0 0 wait_state = Inr (s', info) \<and> pc s' = pc wait_state"
    by blast
  from wait_for_key_step[OF f2 k, of 0 0 0] p
  have B: "\<exists>s' info. Step 0 0 0 ?p = Inr (s', info) \<and>
             v s' (unat (op_x 0xF30A)) = of_nat 5 \<and> pc s' = pc ?p + 2"
    by blast
  have x: "unat (op_x 0xF30A) = 3" by (simp add: op_x_def)
  have pcs: "pc wait_state = 0x200" "pc ?p + 2 = 0x202"
    by (simp_all add: wait_state_def zeroProcessor_def SetKey_def)
  from A B f1 f2 k n p x pcs show ?thesis
    by (simp add: list_all_iff)
qed

lemma Execute_add_i:
  "op_kind opcode = 0xF \<Longrightarrow> op_nn opcode = 0x1E \<Longrightarrow>
     Execute opcode r info s =
       Inr (s\<lparr>i_reg := i_reg s + ucast (v s (unat (op_x opcode)))\<rparr>, info)"
  by (simp add: Execute_def ExecuteF_def with_info_def setIToX_def op_x_ok)

lemma unat_add_byte:
  "unat ((a::uint16) + ucast (b::byte)) = (unat a + unat b) mod 2 ^ 16"
  using byte_lt[of b] by (simp add: unat_word_ariths unsigned_ucast_eq take_bit_nat_eq_self)

text \<open>
  C10. FX1E adds \<open>Vx\<close> to the index register: the new value is \<open>(I + Vx) mod 2^16\<close>; the
  general-purpose registers, the memory, the stack, the display and the keys are unchanged,
  and the program counter is changed only by the post-fetch increment of 2.
\<close>

theorem add_to_index_step:
  "OpcodeAt (pc s) s = Inr opcode \<Longrightarrow> op_kind opcode = 0xF \<Longrightarrow> op_nn opcode = 0x1E \<Longrightarrow>
     Execute opcode r info s =
       Inr (s\<lparr>i_reg := i_reg s + ucast (v s (unat (op_x opcode)))\<rparr>, info) \<and>
     (\<exists>s' info'. Step r t1 t2 s = Inr (s', info') \<and>
        unat (i_reg s') = (unat (i_reg s) + unat (v s (unat (op_x opcode)))) mod 2 ^ 16 \<and>
        v s' = v s \<and> memory s' = memory s \<and> pc s' = pc s + 2 \<and>
        stack s' = stack s \<and> sp s' = sp s \<and> display s' = display s \<and>
        keyState s' = keyState s)"
proof -
  assume f: "OpcodeAt (pc s) s = Inr opcode" and k: "op_kind opcode = 0xF" "op_nn opcode = 0x1E"
  let ?s0 = "s\<lparr>pc := pc s + 2\<rparr>"
  have "Execute opcode r 0 ?s0 =
          Inr (?s0\<lparr>i_reg := i_reg ?s0 + ucast (v ?s0 (unat (op_x opcode)))\<rparr>, 0)"
    by (rule Execute_add_i[OF k])
  from Step_of_Execute[OF f this] Execute_add_i[OF k, of r info s] show ?thesis
    by (simp add: tick_timers_frame unat_add_byte)
qed

theorem add_to_index_step_witness:
  "OpcodeAt (pc add_i_state) add_i_state = Inr 0xF21E \<and>
   op_kind 0xF21E = 0xF \<and> op_nn 0xF21E = 0x1E \<and>
   (\<exists>s' info'. Step 0 0 0 add_i_state = Inr (s', info') \<and> unat (i_reg s') = 0xFD \<and>
      v s' = v add_i_state \<and> memory s' = memory add_i_state \<and> pc s' = 0x202)"
proof -
  have f: "OpcodeAt (pc add_i_state) add_i_state = Inr 0xF21E"
    by (simp add: fetch_eval add_i_state_def zeroProcessor_def set_reg_def)
  have k: "op_kind 0xF21E = 0xF" "op_nn 0xF21E = 0x1E"
    by (simp_all add: op_kind_def op_nn_def)
  have x: "unat (op_x 0xF21E) = 2" by (simp add: op_x_def)
  have e: "(unat (i_reg add_i_state) + unat (v add_i_state 2)) mod 2 ^ 16 = 0xFD"
    "pc add_i_state + 2 = 0x202"
    by (simp_all add: add_i_state_def zeroProcessor_def set_reg_def)
  from add_to_index_step[OF f k, of 0 0 0 0] f k x e show ?thesis
    by simp blast
qed

section \<open>The timers and the clock\<close>

lemma Step_cases:
  assumes "Step r t1 t2 s = Inr (s', info)"
  obtains opcode s1 info1 where "OpcodeAt (pc s) s = Inr opcode"
    and "Execute opcode r 0 (s\<lparr>pc := pc s + 2\<rparr>) = Inr (s1, info1)"
    and "s' = tick_timers t1 t2 s1"
  using assms by (auto simp: Step_def Let_def split: sum.splits)

lemma timer_due_after_Execute:
  "Execute opcode r info (s\<lparr>pc := p\<rparr>) = Inr (s1, info1) \<Longrightarrow> timer_due t s1 = timer_due t s"
  by (drule Execute_timer_frame) (simp add: timer_due_def)

lemma byte_pred: "(b::byte) > 0 \<Longrightarrow> unat (b - 1) = unat b - 1"
  by (simp add: unat_minus_one word_neq_0_conv)

lemma tick_timers_effect:
  "(timer_due t1 s \<longrightarrow>
      delay (tick_timers t1 t2 s) = (if delay s > 0 then delay s - 1 else 0) \<and>
      sound (tick_timers t1 t2 s) = (if sound s > 0 then sound s - 1 else 0) \<and>
      lastTimerUpdate (tick_timers t1 t2 s) = t2) \<and>
   (\<not> timer_due t1 s \<longrightarrow> tick_timers t1 t2 s = s)"
  by (auto simp: tick_timers_def Let_def word_gt_0)

lemma tick_timers_once:
  "unat (delay s) \<le> unat (delay (tick_timers t1 t2 s)) + 1"
  "unat (delay (tick_timers t1 t2 s)) \<le> unat (delay s)"
  "unat (sound s) \<le> unat (sound (tick_timers t1 t2 s)) + 1"
  "unat (sound (tick_timers t1 t2 s)) \<le> unat (sound s)"
  by (auto simp: tick_timers_def Let_def byte_pred)

lemma Step_reference:
  assumes "Step r t1 t2 s = Inr (s', info)"
  shows "lastTimerUpdate s' = (if timer_due t1 s then t2 else lastTimerUpdate s)"
proof -
  from assms obtain opcode s1 info1 where
    e: "Execute opcode r 0 (s\<lparr>pc := pc s + 2\<rparr>) = Inr (s1, info1)" and s': "s' = tick_timers t1 t2 s1"
    by (rule Step_cases)
  from e have "lastTimerUpdate s1 = lastTimerUpdate s" by (drule_tac Execute_timer_frame) simp
  moreover from e have "timer_due t1 s1 = timer_due t1 s" by (rule timer_due_after_Execute)
  ultimately show ?thesis using tick_timers_effect[of t1 s1 t2] s' by auto
qed

lemma run_steps_ticks:
  "run_steps inputs s = Inr (s', n) \<Longrightarrow> \<forall>(r, t1, t2) \<in> set inputs. t1 \<le> t2 \<Longrightarrow>
     int n * TimerRate \<le> lastTimerUpdate s' - lastTimerUpdate s"
proof (induction inputs arbitrary: s s' n)
  case Nil
  then show ?case by simp
next
  case (Cons a inputs)
  obtain r t1 t2 where a: "a = (r, t1, t2)" by (cases a)
  from Cons.prems(1) a obtain s1 info m where
    st: "Step r t1 t2 s = Inr (s1, info)" and rest: "run_steps inputs s1 = Inr (s', m)"
    and n: "n = m + (if timer_due t1 s then 1 else 0)"
    by (auto split: sum.splits)
  from Cons.prems(2) a have le: "t1 \<le> t2" and all: "\<forall>(r, t1, t2) \<in> set inputs. t1 \<le> t2"
    by simp_all
  from Cons.IH[OF rest all] have ih: "int m * TimerRate \<le> lastTimerUpdate s' - lastTimerUpdate s1" .
  show ?case
  proof (cases "timer_due t1 s")
    case True
    with Step_reference[OF st] have "lastTimerUpdate s1 = t2" by simp
    moreover from True have "TimerRate \<le> t1 - lastTimerUpdate s" by (simp add: timer_due_def)
    ultimately show ?thesis using ih le n True by (simp add: algebra_simps)
  next
    case False
    with Step_reference[OF st] have "lastTimerUpdate s1 = lastTimerUpdate s" by simp
    with ih n False show ?thesis by simp
  qed
qed

lemma run_steps_reference:
  "run_steps inputs s = Inr (s', n) \<Longrightarrow> \<forall>(r, t1, t2) \<in> set inputs. t2 \<le> T \<Longrightarrow>
     lastTimerUpdate s \<le> T \<Longrightarrow> lastTimerUpdate s' \<le> T"
proof (induction inputs arbitrary: s s' n)
  case Nil
  then show ?case by simp
next
  case (Cons a inputs)
  obtain r t1 t2 where a: "a = (r, t1, t2)" by (cases a)
  from Cons.prems(1) a obtain s1 info m where
    st: "Step r t1 t2 s = Inr (s1, info)" and rest: "run_steps inputs s1 = Inr (s', m)"
    by (auto split: sum.splits)
  from Cons.prems(2) a have le: "t2 \<le> T" and all: "\<forall>(r, t1, t2) \<in> set inputs. t2 \<le> T"
    by simp_all
  from Step_reference[OF st] le Cons.prems(3) have "lastTimerUpdate s1 \<le> T" by simp
  from Cons.IH[OF rest all this] show ?case .
qed


text \<open>
  C8. In one \<open>Step\<close> each of the two timers goes down by at most one, and only when the
  clock reading is at least 1/60 second past the last timer tick; then both timers are
  decremented, a timer at 0 staying 0, and the reference is set to the new clock reading;
  otherwise the step leaves both timers and the reference as the instruction left them. Over
  any run of steps whose clock readings do not exceed \<open>T\<close>, the number of steps at which
  the timers are decremented is at most the number of whole 1/60-second intervals between
  the first reference and \<open>T\<close>, however many instructions are executed.
\<close>

theorem timers_follow_the_clock:
  "(Step r t1 t2 s = Inr (s', info) \<longrightarrow>
      (\<exists>opcode s1 info1.
          OpcodeAt (pc s) s = Inr opcode \<and>
          Execute opcode r 0 (s\<lparr>pc := pc s + 2\<rparr>) = Inr (s1, info1) \<and>
          (TimerRate \<le> t1 - lastTimerUpdate s \<longrightarrow>
             delay s' = (if delay s1 > 0 then delay s1 - 1 else 0) \<and>
             sound s' = (if sound s1 > 0 then sound s1 - 1 else 0) \<and>
             lastTimerUpdate s' = t2) \<and>
          (\<not> TimerRate \<le> t1 - lastTimerUpdate s \<longrightarrow>
             delay s' = delay s1 \<and> sound s' = sound s1 \<and>
             lastTimerUpdate s' = lastTimerUpdate s) \<and>
          unat (delay s1) \<le> unat (delay s') + 1 \<and> unat (delay s') \<le> unat (delay s1) \<and>
          unat (sound s1) \<le> unat (sound s') + 1 \<and> unat (sound s') \<le> unat (sound s1))) \<and>
   (run_steps inputs s = Inr (s'', n) \<and> (\<forall>(r, t1, t2) \<in> set inputs. t1 \<le> t2 \<and> t2 \<le> T) \<and>
    lastTimerUpdate s \<le> T \<longrightarrow>
      int n \<le> (T - lastTimerUpdate s) div TimerRate)"
proof (intro conjI impI)
  assume st: "Step r t1 t2 s = Inr (s', info)"
  then obtain opcode s1 info1 where f: "OpcodeAt (pc s) s = Inr opcode"
    and e: "Execute opcode r 0 (s\<lparr>pc := pc s + 2\<rparr>) = Inr (s1, info1)"
    and s': "s' = tick_timers t1 t2 s1"
    by (rule Step_cases)
  from e have due: "timer_due t1 s1 = (TimerRate \<le> t1 - lastTimerUpdate s)"
    by (simp add: timer_due_after_Execute) (simp add: timer_due_def)
  from e have ref: "lastTimerUpdate s1 = lastTimerUpdate s"
    by (drule_tac Execute_timer_frame) simp
  from tick_timers_effect[of t1 s1 t2] tick_timers_once[where s = s1 and ?t1.0 = t1 and ?t2.0 = t2] f e
  show "\<exists>opcode s1 info1.
          OpcodeAt (pc s) s = Inr opcode \<and>
          Execute opcode r 0 (s\<lparr>pc := pc s + 2\<rparr>) = Inr (s1, info1) \<and>
          (TimerRate \<le> t1 - lastTimerUpdate s \<longrightarrow>
             delay s' = (if delay s1 > 0 then delay s1 - 1 else 0) \<and>
             sound s' = (if sound s1 > 0 then sound s1 - 1 else 0) \<and>
             lastTimerUpdate s' = t2) \<and>
          (\<not> TimerRate \<le> t1 - lastTimerUpdate s \<longrightarrow>
             delay s' = delay s1 \<and> sound s' = sound s1 \<and>
             lastTimerUpdate s' = lastTimerUpdate s) \<and>
          unat (delay s1) \<le> unat (delay s') + 1 \<and> unat (delay s') \<le> unat (delay s1) \<and>
          unat (sound s1) \<le> unat (sound s') + 1 \<and> unat (sound s') \<le> unat (sound s1)"
    unfolding s' due by (intro exI[of _ opcode] exI[of _ s1] exI[of _ info1]) (simp add: ref)
next
  assume a: "run_steps inputs s = Inr (s'', n) \<and>
    (\<forall>(r, t1, t2) \<in> set inputs. t1 \<le> t2 \<and> t2 \<le> T) \<and> lastTimerUpdate s \<le> T"
  then have "int n * TimerRate \<le> lastTimerUpdate s'' - lastTimerUpdate s"
    by (intro run_steps_ticks[of inputs s s'' n]) auto
  moreover from a have "lastTimerUpdate s'' \<le> T"
    by (intro run_steps_reference[of inputs s s'' n T]) auto
  ultimately have "int n * TimerRate \<le> T - lastTimerUpdate s" by simp
  then show "int n \<le> (T - lastTimerUpdate s) div TimerRate"
    by (simp add: TimerRate_def) 
qed

lemmas step_eval =
  Step_def OpcodeAt_def Read_def Read_loop.simps word_less_nat_alt Execute_def op_kind_def
  op_nnn_def jumpToLocation_def tick_timers_def timer_due_def TimerRate_def timer_flags_def
  Delay_def Sound_def Let_def

lemma loop_step_early: "t1 < 16666666 \<Longrightarrow> Step 0 t1 t2 loop_state = Inr (loop_state, 1)"
  by (simp add: step_eval loop_state_def zeroProcessor_def)

lemma loop_run:
  "run_steps [(0, 1000, 1000), (0, 2000, 2000), (0, 20000000, 20000001)] loop_state =
     Inr (loop_state\<lparr>delay := 4, lastTimerUpdate := 20000001\<rparr>, 1)"
  by (simp add: loop_step_early) (simp add: step_eval loop_state_def zeroProcessor_def)


theorem timers_follow_the_clock_witness:
  "Step 0 1000 1000 loop_state = Inr (loop_state, 1) \<and>
   \<not> TimerRate \<le> 1000 - lastTimerUpdate loop_state \<and>
   (\<exists>opcode s1 info1.
       OpcodeAt (pc loop_state) loop_state = Inr opcode \<and>
       Execute opcode 0 0 (loop_state\<lparr>pc := pc loop_state + 2\<rparr>) = Inr (s1, info1) \<and>
       delay loop_state = delay s1 \<and> sound loop_state = sound s1) \<and>
   run_steps [(0, 1000, 1000), (0, 2000, 2000), (0, 20000000, 20000001)] loop_state =
     Inr (loop_state\<lparr>delay := 4, lastTimerUpdate := 20000001\<rparr>, 1) \<and>
   list_all (\<lambda>(r, t1, t2). t1 \<le> t2 \<and> t2 \<le> 20000001)
     [(0::byte, 1000::int, 1000::int), (0, 2000, 2000), (0, 20000000, 20000001)] \<and>
   lastTimerUpdate loop_state \<le> 20000001 \<and>
   int 1 \<le> (20000001 - lastTimerUpdate loop_state) div TimerRate"
proof -
  have st: "Step 0 1000 1000 loop_state = Inr (loop_state, 1)"
    by (simp add: loop_step_early)
  have early: "\<not> TimerRate \<le> 1000 - lastTimerUpdate loop_state"
    by (simp add: TimerRate_def loop_state_def zeroProcessor_def)
  have mono: "\<forall>(r, t1, t2) \<in> set [(0::byte, 1000::int, 1000::int), (0, 2000, 2000), (0, 20000000, 20000001)].
       t1 \<le> t2 \<and> t2 \<le> 20000001"
    by simp
  have ref: "lastTimerUpdate loop_state \<le> 20000001"
    by (simp add: loop_state_def zeroProcessor_def)
  from timers_follow_the_clock[where r = 0 and ?t1.0 = 1000 and ?t2.0 = 1000 and s = loop_state
      and s' = loop_state and info = 1
      and inputs = "[(0, 1000, 1000), (0, 2000, 2000), (0, 20000000, 20000001)]"
      and s'' = "loop_state\<lparr>delay := 4, lastTimerUpdate := 20000001\<rparr>" and n = 1
      and T = 20000001]
    st early loop_run mono ref
  have "(\<exists>opcode s1 info1.
       OpcodeAt (pc loop_state) loop_state = Inr opcode \<and>
       Execute opcode 0 0 (loop_state\<lparr>pc := pc loop_state + 2\<rparr>) = Inr (s1, info1) \<and>
       delay loop_state = delay s1 \<and> sound loop_state = sound s1) \<and>
     int 1 \<le> (20000001 - lastTimerUpdate loop_state) div TimerRate"
    by blast
  with st early loop_run ref show ?thesis by simp
qed

section \<open>Memory accesses\<close>

lemma Write_loop_spec:
  "unat (loc + k) = unat loc + unat k \<Longrightarrow> Write_loop loc data k mem = (mem', k') \<Longrightarrow>
     unat k \<le> unat k' \<and>
     (unat k \<le> length data \<longrightarrow> unat k' \<le> length data) \<and>
     (unat k < unat k' \<longrightarrow> unat loc + unat k' \<le> 0xFFF) \<and>
     (unat loc + length data \<le> 0xFFF \<longrightarrow> unat k \<le> length data \<longrightarrow> unat k' = length data) \<and>
     (\<forall>a. mem' a = (if unat loc + unat k \<le> a \<and> a < unat loc + unat k' then data ! (a - unat loc)
                    else mem a))"
proof (induction loc data k mem rule: Write_loop.induct)
  case (1 loc data k mem)
  show ?case
  proof (cases "loc + k < 0xFFF \<and> unat k < length data")
    case False
    with "1.prems" have e: "mem' = mem" "k' = k"
      by (simp_all add: Write_loop.simps[of loc data k mem])
    from False "1.prems"(1) have "unat loc + length data \<le> 0xFFF \<Longrightarrow> unat k \<le> length data \<Longrightarrow>
        unat k = length data"
      by (auto simp: word_less_nat_alt)
    with e show ?thesis by auto
  next
    case True
    then have lt: "unat (loc + k) < 0xFFF" by (simp add: word_less_nat_alt)
    with "1.prems"(1) have k1: "unat (k + 1) = unat k + 1"
      by (simp add: unat_word_ariths)
    from lt have "unat (loc + k + 1) = unat (loc + k) + 1"
      by (simp add: unat_word_ariths)
    with "1.prems"(1) k1 have inv: "unat (loc + (k + 1)) = unat loc + unat (k + 1)"
      by (simp add: add.assoc)
    from True "1.prems"(2)
    have r: "Write_loop loc data (k + 1) (mem(unat (loc + k) := data ! unat k)) = (mem', k')"
      by (simp add: Write_loop.simps[of loc data k mem])
    note ih = "1.IH"[OF True inv r]
    from ih k1 True lt "1.prems"(1) show ?thesis
      by (auto simp: word_less_nat_alt)
  qed
qed

lemma Read_loop_spec:
  "unat (loc + k) = unat loc + unat k \<Longrightarrow> Read_loop loc k mem data = (data', k') \<Longrightarrow>
     unat k \<le> unat k' \<and> length data' = length data \<and>
     (unat k \<le> length data \<longrightarrow> unat k' \<le> length data) \<and>
     (unat k < unat k' \<longrightarrow> unat loc + unat k' \<le> 0xFFF) \<and>
     (unat loc + length data \<le> 0xFFF \<longrightarrow> unat k \<le> length data \<longrightarrow> unat k' = length data) \<and>
     (\<forall>j<length data. data' ! j = (if unat k \<le> j \<and> j < unat k' then mem (unat loc + j)
                    else data ! j))"
proof (induction loc k mem data rule: Read_loop.induct)
  case (1 loc k mem data)
  show ?case
  proof (cases "loc + k < 0xFFF \<and> unat k < length data")
    case False
    with "1.prems" have e: "data' = data" "k' = k"
      by (simp_all add: Read_loop.simps[of loc k mem data])
    from False "1.prems"(1) have "unat loc + length data \<le> 0xFFF \<Longrightarrow> unat k \<le> length data \<Longrightarrow>
        unat k = length data"
      by (auto simp: word_less_nat_alt)
    with e show ?thesis by auto
  next
    case True
    then have lt: "unat (loc + k) < 0xFFF" by (simp add: word_less_nat_alt)
    with "1.prems"(1) have k1: "unat (k + 1) = unat k + 1"
      by (simp add: unat_word_ariths)
    from lt have "unat (loc + k + 1) = unat (loc + k) + 1"
      by (simp add: unat_word_ariths)
    with "1.prems"(1) k1 have inv: "unat (loc + (k + 1)) = unat loc + unat (k + 1)"
      by (simp add: add.assoc)
    from True "1.prems"(2)
    have r: "Read_loop loc (k + 1) mem (data[unat k := mem (unat (loc + k))]) = (data', k')"
      by (simp add: Read_loop.simps[of loc k mem data])
    note ih = "1.IH"[OF True inv r]
    have cells: "data' ! j = (if unat k \<le> j \<and> j < unat k' then mem (unat loc + j) else data ! j)"
      if "j < length data" for j
    proof (cases "j = unat k")
      case True
      with ih k1 that "1.prems"(1) show ?thesis by (simp add: nth_list_update)
    next
      case False
      with ih k1 that "1.prems"(1) show ?thesis by (auto simp: nth_list_update)
    qed
    from ih k1 True lt "1.prems"(1) have
      "unat k \<le> unat k' \<and> length data' = length data \<and>
       (unat k \<le> length data \<longrightarrow> unat k' \<le> length data) \<and>
       (unat k < unat k' \<longrightarrow> unat loc + unat k' \<le> 0xFFF) \<and>
       (unat loc + length data \<le> 0xFFF \<longrightarrow> unat k \<le> length data \<longrightarrow> unat k' = length data)"
      by (auto simp: word_less_nat_alt)
    with cells show ?thesis by blast
  qed
qed


lemma reg_succ: "reg_ok k \<Longrightarrow> unat (k + 1) = unat k + 1"
  by (simp add: reg_ok_def RegisterCount_def unat_word_ariths)

lemma addr_offset:
  "unat (a::uint16) < MemorySize \<Longrightarrow> reg_ok k \<Longrightarrow> unat (a + k) = unat a + unat k"
  by (simp add: reg_ok_def RegisterCount_def MemorySize_def unat_word_ariths)

lemma regs_to_mem_in_range:
  "unat (i_reg s) + unat x < MemorySize \<Longrightarrow> reg_ok x \<Longrightarrow> unat k \<le> unat x + 1 \<Longrightarrow>
     regs_to_mem x k s =
       Inr (s\<lparr>memory := (\<lambda>a. if unat (i_reg s) + unat k \<le> a \<and> a \<le> unat (i_reg s) + unat x
                             then v s (a - unat (i_reg s)) else memory s a)\<rparr>)"
proof (induction x k s rule: regs_to_mem.induct)
  case (1 x k s)
  show ?case
  proof (cases "k \<le> x")
    case False
    then have "unat x < unat k" by (simp add: word_le_nat_alt)
    then have "(\<lambda>a. if unat (i_reg s) + unat k \<le> a \<and> a \<le> unat (i_reg s) + unat x
                 then v s (a - unat (i_reg s)) else memory s a) = memory s"
      by (intro ext) auto
    with False show ?thesis by (simp add: regs_to_mem.simps[of x k s])
  next
    case True
    then have kx: "unat k \<le> unat x" by (simp add: word_le_nat_alt)
    with "1.prems"(2) have ok: "reg_ok k" by (simp add: reg_ok_def)
    from "1.prems"(1) have top: "unat (i_reg s) < MemorySize" by simp
    have a: "unat (i_reg s + k) = unat (i_reg s) + unat k" by (rule addr_offset[OF top ok])
    let ?s1 = "s\<lparr>memory := (memory s)(unat (i_reg s) + unat k := v s (unat k))\<rparr>"
    from a kx "1.prems"(1) have w: "mem_write (i_reg s + k) (v s (unat k)) s = Inr ?s1"
      by (simp add: mem_write_def)
    from ok have nk: "\<not> \<not> reg_ok k" by simp
    have "regs_to_mem x (k + 1) ?s1 =
       Inr (?s1\<lparr>memory := (\<lambda>a. if unat (i_reg ?s1) + unat (k + 1) \<le> a \<and> a \<le> unat (i_reg ?s1) + unat x
                             then v ?s1 (a - unat (i_reg ?s1)) else memory ?s1 a)\<rparr>)"
      using "1.prems" kx by (intro "1.IH"[OF True nk w]) (simp_all add: reg_succ[OF ok])
    moreover have "(\<lambda>a. if unat (i_reg ?s1) + unat (k + 1) \<le> a \<and> a \<le> unat (i_reg ?s1) + unat x
                             then v ?s1 (a - unat (i_reg ?s1)) else memory ?s1 a) =
       (\<lambda>a. if unat (i_reg s) + unat k \<le> a \<and> a \<le> unat (i_reg s) + unat x
                             then v s (a - unat (i_reg s)) else memory s a)"
      using kx by (intro ext) (auto simp: reg_succ[OF ok])
    ultimately show ?thesis using True ok w
      by (simp add: regs_to_mem.simps[of x k s])
  qed
qed

lemma regs_to_mem_out_of_range:
  "unat (i_reg s) < MemorySize \<Longrightarrow> MemorySize \<le> unat (i_reg s) + unat x \<Longrightarrow> reg_ok x \<Longrightarrow>
     k \<le> x \<Longrightarrow> regs_to_mem x k s = Inl IndexOutOfRange"
proof (induction x k s rule: regs_to_mem.induct)
  case (1 x k s)
  from "1.prems"(4) have kx: "unat k \<le> unat x" by (simp add: word_le_nat_alt)
  with "1.prems"(3) have ok: "reg_ok k" by (simp add: reg_ok_def)
  have a: "unat (i_reg s + k) = unat (i_reg s) + unat k"
    by (rule addr_offset[OF "1.prems"(1) ok])
  show ?case
  proof (cases "unat (i_reg s) + unat k < MemorySize")
    case False
    with a "1.prems"(4) ok show ?thesis
      by (simp add: regs_to_mem.simps[of x k s] mem_write_def)
  next
    case True
    let ?s1 = "s\<lparr>memory := (memory s)(unat (i_reg s) + unat k := v s (unat k))\<rparr>"
    from a True have w: "mem_write (i_reg s + k) (v s (unat k)) s = Inr ?s1"
      by (simp add: mem_write_def)
    from True "1.prems"(2) kx have "unat k < unat x" by simp
    with ok have "k + 1 \<le> x" by (simp add: word_le_nat_alt reg_succ)
    with "1.prems" have "regs_to_mem x (k + 1) ?s1 = Inl IndexOutOfRange"
      by (intro "1.IH"[OF "1.prems"(4) _ w]) (simp_all add: ok)
    with "1.prems"(4) ok w show ?thesis
      by (simp add: regs_to_mem.simps[of x k s])
  qed
qed

lemma setRegistersToMemory_spec:
  assumes "reg_ok x"
  shows "setRegistersToMemory x s =
     (if unat (i_reg s) + unat x < MemorySize
      then Inr (s\<lparr>memory := (\<lambda>a. if unat (i_reg s) \<le> a \<and> a \<le> unat (i_reg s) + unat x
                             then v s (a - unat (i_reg s)) else memory s a)\<rparr>)
      else Inl IndexOutOfRange)"
proof (cases "unat (i_reg s) + unat x < MemorySize")
  case True
  with regs_to_mem_in_range[OF True assms, of 0] show ?thesis
    by (simp add: setRegistersToMemory_def)
next
  case False
  show ?thesis
  proof (cases "unat (i_reg s) < MemorySize")
    case True
    with False assms have "regs_to_mem x 0 s = Inl IndexOutOfRange"
      by (intro regs_to_mem_out_of_range) simp_all
    with False show ?thesis by (simp add: setRegistersToMemory_def)
  next
    case top: False
    then have "regs_to_mem x 0 s = Inl IndexOutOfRange"
      by (simp add: regs_to_mem.simps[of x 0 s] mem_write_def reg_ok_def RegisterCount_def)
    with False show ?thesis by (simp add: setRegistersToMemory_def)
  qed
qed


lemma mem_to_regs_in_range:
  "unat (i_reg s) + unat x < MemorySize \<Longrightarrow> reg_ok x \<Longrightarrow> unat k \<le> unat x + 1 \<Longrightarrow>
     mem_to_regs x k s =
       Inr (s\<lparr>v := (\<lambda>j. if unat k \<le> j \<and> j \<le> unat x
                        then memory s (unat (i_reg s) + j) else v s j)\<rparr>)"
proof (induction x k s rule: mem_to_regs.induct)
  case (1 x k s)
  show ?case
  proof (cases "k \<le> x")
    case False
    then have "unat x < unat k" by (simp add: word_le_nat_alt)
    then have "(\<lambda>j. if unat k \<le> j \<and> j \<le> unat x
                 then memory s (unat (i_reg s) + j) else v s j) = v s"
      by (intro ext) auto
    with False show ?thesis by (simp add: mem_to_regs.simps[of x k s])
  next
    case True
    then have kx: "unat k \<le> unat x" by (simp add: word_le_nat_alt)
    with "1.prems"(2) have ok: "reg_ok k" by (simp add: reg_ok_def)
    from "1.prems"(1) have top: "unat (i_reg s) < MemorySize" by simp
    have a: "unat (i_reg s + k) = unat (i_reg s) + unat k" by (rule addr_offset[OF top ok])
    let ?s1 = "set_reg (unat k) (memory s (unat (i_reg s + k))) s"
    from a kx ok "1.prems"(1)
    have g: "\<not> (\<not> reg_ok k \<or> \<not> unat (i_reg s + k) < MemorySize)" by simp
    have "mem_to_regs x (k + 1) ?s1 =
       Inr (?s1\<lparr>v := (\<lambda>j. if unat (k + 1) \<le> j \<and> j \<le> unat x
                        then memory ?s1 (unat (i_reg ?s1) + j) else v ?s1 j)\<rparr>)"
      using "1.prems" kx by (intro "1.IH"[OF True g]) (simp_all add: reg_succ[OF ok] set_reg_def)
    moreover have "(\<lambda>j. if unat (k + 1) \<le> j \<and> j \<le> unat x
                        then memory ?s1 (unat (i_reg ?s1) + j) else v ?s1 j) =
       (\<lambda>j. if unat k \<le> j \<and> j \<le> unat x
                        then memory s (unat (i_reg s) + j) else v s j)"
      using kx a by (intro ext) (auto simp: reg_succ[OF ok] set_reg_def)
    ultimately show ?thesis using True g
      by (simp add: mem_to_regs.simps[of x k s] set_reg_def)
  qed
qed

lemma mem_to_regs_out_of_range:
  "unat (i_reg s) < MemorySize \<Longrightarrow> MemorySize \<le> unat (i_reg s) + unat x \<Longrightarrow> reg_ok x \<Longrightarrow>
     k \<le> x \<Longrightarrow> mem_to_regs x k s = Inl IndexOutOfRange"
proof (induction x k s rule: mem_to_regs.induct)
  case (1 x k s)
  from "1.prems"(4) have kx: "unat k \<le> unat x" by (simp add: word_le_nat_alt)
  with "1.prems"(3) have ok: "reg_ok k" by (simp add: reg_ok_def)
  have a: "unat (i_reg s + k) = unat (i_reg s) + unat k"
    by (rule addr_offset[OF "1.prems"(1) ok])
  show ?case
  proof (cases "unat (i_reg s) + unat k < MemorySize")
    case False
    with a "1.prems"(4) ok show ?thesis
      by (simp add: mem_to_regs.simps[of x k s])
  next
    case True
    let ?s1 = "set_reg (unat k) (memory s (unat (i_reg s + k))) s"
    from a True ok have g: "\<not> (\<not> reg_ok k \<or> \<not> unat (i_reg s + k) < MemorySize)" by simp
    from True "1.prems"(2) kx have "unat k < unat x" by simp
    with ok have "k + 1 \<le> x" by (simp add: word_le_nat_alt reg_succ)
    with "1.prems" have "mem_to_regs x (k + 1) ?s1 = Inl IndexOutOfRange"
      by (intro "1.IH"[OF "1.prems"(4) g]) (simp_all add: set_reg_def)
    with "1.prems"(4) g show ?thesis
      by (simp add: mem_to_regs.simps[of x k s])
  qed
qed

lemma setMemoryToRegisters_spec:
  assumes "reg_ok x"
  shows "setMemoryToRegisters x s =
     (if unat (i_reg s) + unat x < MemorySize
      then Inr (s\<lparr>v := (\<lambda>j. if j \<le> unat x then memory s (unat (i_reg s) + j) else v s j)\<rparr>)
      else Inl IndexOutOfRange)"
proof (cases "unat (i_reg s) + unat x < MemorySize")
  case True
  with mem_to_regs_in_range[OF True assms, of 0] show ?thesis
    by (simp add: setMemoryToRegisters_def)
next
  case False
  show ?thesis
  proof (cases "unat (i_reg s) < MemorySize")
    case True
    with False assms have "mem_to_regs x 0 s = Inl IndexOutOfRange"
      by (intro mem_to_regs_out_of_range) simp_all
    with False show ?thesis by (simp add: setMemoryToRegisters_def)
  next
    case top: False
    then have "mem_to_regs x 0 s = Inl IndexOutOfRange"
      by (simp add: mem_to_regs.simps[of x 0 s])
    with False show ?thesis by (simp add: setMemoryToRegisters_def)
  qed
qed

lemma bcd_out_of_range:
  assumes "reg_ok x" and "\<not> unat (i_reg s) + 2 < MemorySize"
  shows "binaryCodedDecimal x s = Inl IndexOutOfRange"
proof (cases "unat (i_reg s) < MemorySize")
  case False
  with assms(1) show ?thesis
    by (simp add: binaryCodedDecimal_def Let_def and_then_def mem_write_def)
next
  case True
  then have "unat (i_reg s + 1) = unat (i_reg s) + 1" "unat (i_reg s + 2) = unat (i_reg s) + 2"
    by (simp_all add: MemorySize_def unat_word_ariths)
  with assms True show ?thesis
    by (simp add: binaryCodedDecimal_def Let_def and_then_def mem_write_def)
qed


lemma Write_spec:
  assumes "Write loc data s = (s', n)"
  shows "unat n \<le> length data"
    and "n = 0 \<or> unat loc + unat n \<le> MemorySize"
    and "unat loc + length data < MemorySize \<longrightarrow> unat n = length data"
    and "\<forall>a. memory s' a = (if unat loc \<le> a \<and> a < unat loc + unat n then data ! (a - unat loc)
                             else memory s a)"
    and "s' = s\<lparr>memory := memory s'\<rparr>"
proof -
  from assms obtain mem' where w: "Write_loop loc data 0 (memory s) = (mem', n)"
    and s': "s' = s\<lparr>memory := mem'\<rparr>"
    by (auto simp: Write_def split: prod.splits)
  have "unat (loc + 0) = unat loc + unat (0::uint16)" by simp
  note spec = Write_loop_spec[OF this w]
  from spec show "unat n \<le> length data" by simp
  from spec show "n = 0 \<or> unat loc + unat n \<le> MemorySize"
    by (cases "n = 0") (auto simp: MemorySize_def unat_gt_0)
  from spec show "unat loc + length data < MemorySize \<longrightarrow> unat n = length data"
    by (simp add: MemorySize_def)
  from spec s' show "\<forall>a. memory s' a = (if unat loc \<le> a \<and> a < unat loc + unat n
      then data ! (a - unat loc) else memory s a)"
    by simp
  from s' show "s' = s\<lparr>memory := memory s'\<rparr>" by simp
qed

lemma Read_spec:
  assumes "Read loc buf s = (buf', m)"
  shows "unat m \<le> length buf" and "length buf' = length buf"
    and "m = 0 \<or> unat loc + unat m \<le> MemorySize"
    and "unat loc + length buf < MemorySize \<longrightarrow> unat m = length buf"
    and "\<forall>j<length buf. buf' ! j = (if j < unat m then memory s (unat loc + j) else buf ! j)"
proof -
  from assms have r: "Read_loop loc 0 (memory s) buf = (buf', m)" by (simp add: Read_def)
  have "unat (loc + 0) = unat loc + unat (0::uint16)" by simp
  note spec = Read_loop_spec[OF this r]
  from spec show "unat m \<le> length buf" by simp
  from spec show "length buf' = length buf" by simp
  from spec show "m = 0 \<or> unat loc + unat m \<le> MemorySize"
    by (cases "m = 0") (auto simp: MemorySize_def unat_gt_0)
  from spec show "unat loc + length buf < MemorySize \<longrightarrow> unat m = length buf"
    by (simp add: MemorySize_def)
  from spec show "\<forall>j<length buf. buf' ! j = (if j < unat m then memory s (unat loc + j) else buf ! j)"
    by simp
qed

lemma bcd_spec:
  assumes "reg_ok x"
  shows "binaryCodedDecimal x s =
     (if unat (i_reg s) + 2 < MemorySize
      then Inr (s\<lparr>memory := (memory s)
              (unat (i_reg s) := of_nat (unat (v s (unat x)) div 100),
               unat (i_reg s) + 1 := of_nat ((unat (v s (unat x)) div 10) mod 10),
               unat (i_reg s) + 2 := of_nat (unat (v s (unat x)) mod 10))\<rparr>)
      else Inl IndexOutOfRange)"
  using bcd_in_range[OF assms, of s] bcd_out_of_range[OF assms, of s] by simp

text \<open>
  C6 (as amended). The bulk operations \<open>Write\<close> and \<open>Read\<close> never touch an address outside
  \<open>[0, 0xFFF]\<close>: for every starting address and every length they copy a prefix of the
  data to or from consecutive addresses that all lie inside the memory, leave everything
  else as it was, report the length of that prefix, and copy everything when the data ends
  below the last byte of memory. The memory instructions FX55, FX65 and FX33 do not
  truncate: when all their addresses \<open>I .. I + x\<close> (or \<open>I .. I + 2\<close>) lie in \<open>[0, 0xFFF]\<close>
  they access exactly these, and otherwise they stop with the index-out-of-range panic, so
  no cell outside the memory is ever read or written; through them every address in
  \<open>[0, 0xFFF]\<close> can be read and written.
\<close>

theorem memory_accesses_in_range:
  "(Write loc data s = (s', n) \<longrightarrow>
      unat n \<le> length data \<and> (n = 0 \<or> unat loc + unat n \<le> MemorySize) \<and>
      (unat loc + length data < MemorySize \<longrightarrow> unat n = length data) \<and>
      (\<forall>a. memory s' a = (if unat loc \<le> a \<and> a < unat loc + unat n then data ! (a - unat loc)
                          else memory s a))) \<and>
   (Read loc buf s = (buf', m) \<longrightarrow>
      unat m \<le> length buf \<and> length buf' = length buf \<and>
      (m = 0 \<or> unat loc + unat m \<le> MemorySize) \<and>
      (unat loc + length buf < MemorySize \<longrightarrow> unat m = length buf) \<and>
      (\<forall>j<length buf. buf' ! j = (if j < unat m then memory s (unat loc + j) else buf ! j))) \<and>
   (reg_ok x \<longrightarrow>
      setRegistersToMemory x s =
        (if unat (i_reg s) + unat x < MemorySize
         then Inr (s\<lparr>memory := (\<lambda>a. if unat (i_reg s) \<le> a \<and> a \<le> unat (i_reg s) + unat x
                                then v s (a - unat (i_reg s)) else memory s a)\<rparr>)
         else Inl IndexOutOfRange) \<and>
      setMemoryToRegisters x s =
        (if unat (i_reg s) + unat x < MemorySize
         then Inr (s\<lparr>v := (\<lambda>j. if j \<le> unat x then memory s (unat (i_reg s) + j) else v s j)\<rparr>)
         else Inl IndexOutOfRange) \<and>
      binaryCodedDecimal x s =
        (if unat (i_reg s) + 2 < MemorySize
         then Inr (s\<lparr>memory := (memory s)
                 (unat (i_reg s) := of_nat (unat (v s (unat x)) div 100),
                  unat (i_reg s) + 1 := of_nat ((unat (v s (unat x)) div 10) mod 10),
                  unat (i_reg s) + 2 := of_nat (unat (v s (unat x)) mod 10))\<rparr>)
         else Inl IndexOutOfRange))"
  using Write_spec(1-4)[of loc data s s' n] Read_spec[of loc buf s buf' m]
    setRegistersToMemory_spec[of x s] setMemoryToRegisters_spec[of x s] bcd_spec[of x s]
  by blast


lemmas bulk_eval =
  Write_def Write_loop.simps Read_def Read_loop.simps word_less_nat_alt zeroProcessor_def

lemma write_near_top:
  "Write 0xFFD [1, 2, 3] zeroProcessor =
     (zeroProcessor\<lparr>memory := (\<lambda>_. 0)(0xFFD := 1, 0xFFE := 2)\<rparr>, 2)"
  by (simp add: bulk_eval)

lemma read_near_top:
  "Read 0xFFD [9, 9, 9] zeroProcessor = ([0, 0, 9], 2)"
  by (simp add: bulk_eval)

theorem memory_accesses_in_range_witness:
  "Write 0xFFD [1, 2, 3] zeroProcessor =
     (zeroProcessor\<lparr>memory := (\<lambda>_. 0)(0xFFD := 1, 0xFFE := 2)\<rparr>, 2) \<and>
   Read 0xFFD [9, 9, 9] zeroProcessor = ([0, 0, 9], 2) \<and>
   reg_ok 0 \<and>
   unat (0xFFD::uint16) + unat (2::uint16) \<le> MemorySize \<and>
   setRegistersToMemory 0 top_state =
     Inr (top_state\<lparr>memory := (\<lambda>a. if a = 0xFFF then 7 else 0)\<rparr>) \<and>
   setMemoryToRegisters 0 top_state = Inr (top_state\<lparr>v := (\<lambda>j. 0)\<rparr>) \<and>
   binaryCodedDecimal 0 top_state = Inl IndexOutOfRange"
proof -
  have r: "reg_ok 0" by (simp add: reg_ok_def RegisterCount_def)
  have i: "unat (i_reg top_state) = 0xFFF" "v top_state = (\<lambda>_. 0)(0 := 7)"
    "memory top_state = (\<lambda>_. 0)"
    by (simp_all add: top_state_def set_reg_def zeroProcessor_def)
  have m: "(\<lambda>a. if 0xFFF \<le> a \<and> a \<le> (0xFFF::nat) then (7::byte) else 0) =
           (\<lambda>a. if a = 0xFFF then 7 else 0)"
    by (intro ext) auto
  have v: "(\<lambda>j::nat. if j = 0 then (0::byte) else ((\<lambda>_. 0)(0 := 7)) j) = (\<lambda>j. 0)"
    by (intro ext) auto
  from memory_accesses_in_range[where loc = "0xFFD" and data = "[1, 2, 3]" and s = zeroProcessor
      and s' = "zeroProcessor\<lparr>memory := (\<lambda>_. 0)(0xFFD := 1, 0xFFE := 2)\<rparr>" and n = 2
      and buf = "[9, 9, 9]" and buf' = "[0, 0, 9]" and m = 2 and x = 0]
    write_near_top read_near_top r
  have a: "unat (0xFFD::uint16) + unat (2::uint16) \<le> MemorySize"
    by simp
  from memory_accesses_in_range[where s = top_state and x = 0] r
  have b: "setRegistersToMemory 0 top_state =
     Inr (top_state\<lparr>memory := (\<lambda>a. if a = 0xFFF then 7 else 0)\<rparr>)"
    "setMemoryToRegisters 0 top_state = Inr (top_state\<lparr>v := (\<lambda>j. 0)\<rparr>)"
    "binaryCodedDecimal 0 top_state = Inl IndexOutOfRange"
    by (simp_all add: i m v MemorySize_def cong: if_cong)
  from write_near_top read_near_top r a b show ?thesis by simp
qed

text \<open>
  C6 as stated fails for the instructions: FX55 with \<open>x = 1\<close> and \<open>I = 0xFFF\<close> is not
  truncated after its first byte but panics; and \<open>Write\<close> at 0xFFF writes nothing, so that
  address is not accessible through the bulk operations.
\<close>

theorem block_transfer_panics_past_top:
  "setRegistersToMemory 1 (zeroProcessor\<lparr>i_reg := 0xFFF\<rparr>) = Inl IndexOutOfRange \<and>
   Write 0xFFF [7] zeroProcessor = (zeroProcessor, 0)"
  by (simp add: setRegistersToMemory_def regs_to_mem.simps mem_write_def reg_ok_def
        RegisterCount_def MemorySize_def word_le_nat_alt bulk_eval)

section \<open>Loading a program\<close>

lemma Load_of_Write:
  "Write ProgramStartAddress b s = (s1, n) \<Longrightarrow>
     Load b s = (if unat n < length b then Inl InsufficientMemory
                 else Inr (s1\<lparr>pc := ProgramStartAddress\<rparr>))"
  by (simp add: Load_def)

lemma Load_fits:
  assumes "unat ProgramStartAddress + length b < MemorySize"
  shows "Load b s =
     Inr (s\<lparr>memory := (\<lambda>a. if unat ProgramStartAddress \<le> a \<and> a < unat ProgramStartAddress + length b
                           then b ! (a - unat ProgramStartAddress) else memory s a),
            pc := ProgramStartAddress\<rparr>)"
proof -
  obtain s1 n where w: "Write ProgramStartAddress b s = (s1, n)" by force
  from Write_spec(3)[OF w] assms have n: "unat n = length b" by simp
  from Write_spec(4)[OF w] n have "memory s1 =
     (\<lambda>a. if unat ProgramStartAddress \<le> a \<and> a < unat ProgramStartAddress + length b
                           then b ! (a - unat ProgramStartAddress) else memory s a)"
    by (intro ext) simp
  with Write_spec(5)[OF w] have "s1 = s\<lparr>memory := (\<lambda>a. if unat ProgramStartAddress \<le> a \<and> a < unat ProgramStartAddress + length b
                           then b ! (a - unat ProgramStartAddress) else memory s a)\<rparr>"
    by simp
  with Load_of_Write[OF w] n show ?thesis by simp
qed

lemma Load_too_long:
  assumes "MemorySize < unat ProgramStartAddress + length b"
  shows "Load b s = Inl InsufficientMemory"
proof -
  obtain s1 n where w: "Write ProgramStartAddress b s = (s1, n)" by force
  from Write_spec(2)[OF w] assms have "unat n < length b"
    by (auto simp: ProgramStartAddress_def MemorySize_def)
  with Load_of_Write[OF w] show ?thesis by simp
qed

lemma Emulator_Load_loop_too_long:
  "unat ProgramStartAddress + k \<le> MemorySize \<Longrightarrow>
   MemorySize < unat ProgramStartAddress + k + length bs \<Longrightarrow>
     Emulator_Load_loop k bs e = Inl IndexOutOfRange"
  by (induction k bs e rule: Emulator_Load_loop.induct) auto

lemma Emulator_Load_too_long:
  "MemorySize < unat ProgramStartAddress + length b \<Longrightarrow> Emulator_Load b e = Inl IndexOutOfRange"
  by (simp add: Emulator_Load_def Emulator_Load_loop_too_long MemorySize_def ProgramStartAddress_def)

text \<open>
  C9 (as amended). \<open>Write\<close> at the program origin 0x200 writes a prefix of the byte
  sequence verbatim and reports its length; \<open>Load\<close>, its caller, sets the program counter
  to 0x200 and returns when the whole sequence was written (as it is whenever the
  sequence ends below the last byte of memory), and raises the fatal panic
  "insufficient memory" when \<open>Write\<close> reports fewer bytes than given. A sequence that
  exceeds the memory above 0x200 ends \<open>Load\<close> in that panic, and the legacy
  \<open>Emulator.Load\<close> in an index panic: no count and no error value reaches the caller.
\<close>

theorem load_writes_from_origin:
  "(Write ProgramStartAddress b s = (s1, n) \<longrightarrow>
      unat n \<le> length b \<and>
      (\<forall>a. memory s1 a =
         (if unat ProgramStartAddress \<le> a \<and> a < unat ProgramStartAddress + unat n
          then b ! (a - unat ProgramStartAddress) else memory s a)) \<and>
      Load b s = (if unat n < length b then Inl InsufficientMemory
                  else Inr (s1\<lparr>pc := ProgramStartAddress\<rparr>))) \<and>
   (unat ProgramStartAddress + length b < MemorySize \<longrightarrow>
      Load b s =
        Inr (s\<lparr>memory := (\<lambda>a. if unat ProgramStartAddress \<le> a \<and>
                                   a < unat ProgramStartAddress + length b
                                then b ! (a - unat ProgramStartAddress) else memory s a),
               pc := ProgramStartAddress\<rparr>)) \<and>
   (MemorySize < unat ProgramStartAddress + length b \<longrightarrow>
      Load b s = Inl InsufficientMemory \<and> Emulator_Load b e = Inl IndexOutOfRange)"
  using Write_spec(1)[of ProgramStartAddress b s s1 n] Write_spec(4)[of ProgramStartAddress b s s1 n]
    Load_of_Write[of b s s1 n] Load_fits[of b s] Load_too_long[of b s]
    Emulator_Load_too_long[of b e]
  by blast

text \<open>
  C9 as stated fails: for a sequence of 4000 bytes \<open>Load\<close> reports nothing to its caller,
  it panics.
\<close>

theorem load_panics_on_oversized_program:
  "Load (replicate 4000 0) zeroProcessor = Inl InsufficientMemory"
  by (rule Load_too_long) (simp add: MemorySize_def ProgramStartAddress_def)


theorem load_writes_from_origin_witness:
  "Write ProgramStartAddress [0x60, 0x2A] zeroProcessor =
     (zeroProcessor\<lparr>memory := (\<lambda>_. 0)(0x200 := 0x60, 0x201 := 0x2A)\<rparr>, 2) \<and>
   unat ProgramStartAddress + length [0x60, 0x2A :: byte] < MemorySize \<and>
   Load [0x60, 0x2A] zeroProcessor =
     Inr (zeroProcessor\<lparr>memory := (\<lambda>_. 0)(0x200 := 0x60, 0x201 := 0x2A), pc := 0x200\<rparr>) \<and>
   MemorySize < unat ProgramStartAddress + length (replicate 5000 (1::byte)) \<and>
   Load (replicate 5000 1) zeroProcessor = Inl InsufficientMemory \<and>
   Emulator_Load (replicate 5000 1) zeroEmulator = Inl IndexOutOfRange"
proof -
  have w: "Write ProgramStartAddress [0x60, 0x2A] zeroProcessor =
     (zeroProcessor\<lparr>memory := (\<lambda>_. 0)(0x200 := 0x60, 0x201 := 0x2A)\<rparr>, 2)"
    by (simp add: bulk_eval ProgramStartAddress_def)
  have fits: "unat ProgramStartAddress + length [0x60, 0x2A :: byte] < MemorySize"
    by (simp add: ProgramStartAddress_def MemorySize_def)
  have long: "MemorySize < unat ProgramStartAddress + length (replicate 5000 (1::byte))"
    by (simp add: ProgramStartAddress_def MemorySize_def)
  from load_writes_from_origin[where b = "[0x60, 0x2A]" and s = zeroProcessor
      and ?s1.0 = "zeroProcessor\<lparr>memory := (\<lambda>_. 0)(0x200 := 0x60, 0x201 := 0x2A)\<rparr>" and n = 2] w
  have a: "Load [0x60, 0x2A] zeroProcessor =
     Inr (zeroProcessor\<lparr>memory := (\<lambda>_. 0)(0x200 := 0x60, 0x201 := 0x2A), pc := 0x200\<rparr>)"
    by (simp add: ProgramStartAddress_def)
  from load_writes_from_origin[where b = "replicate 5000 1" and s = zeroProcessor
      and e = zeroEmulator] long
  have b: "Load (replicate 5000 1) zeroProcessor = Inl InsufficientMemory"
    "Emulator_Load (replicate 5000 1) zeroEmulator = Inl IndexOutOfRange"
    by blast+
  from w fits long a b show ?thesis by simp
qed

end
